theory Spec2Isabelle
  imports Complex_Main "HOL-Library.Sublist" "HOL-Library.Log_Nat"
begin

section \<open>Python strings\<close>

text \<open>
  A Python \<open>str\<close> is modelled as a \<open>string\<close>: a list of characters, each character one
  code point in the range 0..255. Texts with a code point above 255 are outside the
  model; among these code points are the line separators U+2028 and U+2029 of
  \<open>str.splitlines\<close>.
\<close>

definition LF :: char where "LF = CHR 0x0A"
definition CR :: char where "CR = CHR 0x0D"
definition squote :: char where "squote = CHR 0x27"
definition backslash :: char where "backslash = CHR 0x5C"

text \<open>\<open>s.startswith(p)\<close>\<close>

fun startswith :: "string \<Rightarrow> string \<Rightarrow> bool" where
  "startswith s [] = True"
| "startswith [] (p # ps) = False"
| "startswith (c # cs) (p # ps) = (c = p \<and> startswith cs ps)"

text \<open>\<open>m in s\<close> for two strings: \<open>m\<close> occurs in \<open>s\<close> as a contiguous substring.\<close>

fun py_in :: "string \<Rightarrow> string \<Rightarrow> bool" where
  "py_in m [] = (m = [])"
| "py_in m (c # cs) = (startswith (c # cs) m \<or> py_in m cs)"

text \<open>
  \<open>str.splitlines()\<close>: the text is cut at every line boundary, \<open>\r\n\<close> counting as one
  boundary; the boundaries are not kept, and a text that ends in a boundary has no empty
  last line.
\<close>

definition is_linebreak :: "char \<Rightarrow> bool" where
  "is_linebreak c \<longleftrightarrow>
     c \<in> {CHR 0x0A, CHR 0x0B, CHR 0x0C, CHR 0x0D, CHR 0x1C, CHR 0x1D, CHR 0x1E, CHR 0x85}"

fun splitlines_from :: "string \<Rightarrow> string \<Rightarrow> string list" where
  "splitlines_from cur [] = (if cur = [] then [] else [cur])"
| "splitlines_from cur (c # cs) =
     (if c = CR then
        (case cs of
           [] \<Rightarrow> [cur]
         | d # ds \<Rightarrow> if d = LF then cur # splitlines_from [] ds
                    else cur # splitlines_from [] (d # ds))
      else if is_linebreak c then cur # splitlines_from [] cs
      else splitlines_from (cur @ [c]) cs)"

definition splitlines :: "string \<Rightarrow> string list" where
  "splitlines s = splitlines_from [] s"

text \<open>
  \<open>str.isspace\<close> of one character and \<open>str.strip()\<close>: the white space of Python among
  the code points below 256.
\<close>

definition py_isspace :: "char \<Rightarrow> bool" where
  "py_isspace c \<longleftrightarrow>
     c \<in> {CHR 0x09, CHR 0x0A, CHR 0x0B, CHR 0x0C, CHR 0x0D, CHR 0x1C, CHR 0x1D, CHR 0x1E,
          CHR 0x1F, CHR 0x20, CHR 0x85, CHR 0xA0}"

definition strip :: "string \<Rightarrow> string" where
  "strip s = rev (dropWhile py_isspace (rev (dropWhile py_isspace s)))"

text \<open>\<open>sep.join(xs)\<close>\<close>

fun join :: "string \<Rightarrow> string list \<Rightarrow> string" where
  "join sep [] = []"
| "join sep [x] = x"
| "join sep (x # y # ys) = x @ sep @ join sep (y # ys)"

text \<open>\<open>s[-n:]\<close> for a positive \<open>n\<close>: the last \<open>n\<close> characters, all of \<open>s\<close> when it is shorter.\<close>

definition last_chars :: "nat \<Rightarrow> string \<Rightarrow> string" where
  "last_chars n s = drop (length s - n) s"

text \<open>
  \<open>repr\<close> of a string: single quotes unless the text holds a single and no double quote;
  backslash, the quote, tab, newline and carriage return are escaped, every other
  character that is not printable is written \<open>\xNN\<close>.
\<close>

definition dquote :: char where "dquote = CHR 0x22"

definition py_isprintable :: "char \<Rightarrow> bool" where
  "py_isprintable c \<longleftrightarrow>
     (let n = (of_char c :: nat) in (0x20 \<le> n \<and> n < 0x7F) \<or> (0xA1 \<le> n \<and> n \<noteq> 0xAD))"

definition hex_digit :: "nat \<Rightarrow> char" where
  "hex_digit n = ''0123456789abcdef'' ! (n mod 16)"

definition repr_char :: "char \<Rightarrow> char \<Rightarrow> string" where
  "repr_char q c =
     (if c = backslash then [backslash, backslash]
      else if c = q then [backslash, q]
      else if c = CHR 0x09 then [backslash, CHR ''t'']
      else if c = LF then [backslash, CHR ''n'']
      else if c = CR then [backslash, CHR ''r'']
      else if \<not> py_isprintable c
        then [backslash, CHR ''x'', hex_digit (of_char c div 16), hex_digit (of_char c)]
      else [c])"

definition py_repr :: "string \<Rightarrow> string" where
  "py_repr s =
     (let q = (if squote \<in> set s \<and> dquote \<notin> set s then dquote else squote)
      in [q] @ concat (map (repr_char q) s) @ [q])"

text \<open>\<open>str\<close> of a list of strings and of an integer.\<close>

definition str_of_list :: "string list \<Rightarrow> string" where
  "str_of_list xs = ''['' @ join '', '' (map py_repr xs) @ '']''"

fun str_of_nat :: "nat \<Rightarrow> string" where
  "str_of_nat n =
     (if n < 10 then [''0123456789'' ! n]
      else str_of_nat (n div 10) @ [''0123456789'' ! (n mod 10)])"

definition str_of_int :: "int \<Rightarrow> string" where
  "str_of_int i = (if i < 0 then CHR ''-'' # str_of_nat (nat (- i)) else str_of_nat (nat i))"

section \<open>The patch safety validator (tools_repo.py)\<close>

definition bad_markers :: "string list" where
  "bad_markers = [LF # ''+++ /'', LF # ''--- /'', ''diff --git /'']"

text \<open>
  The first loop of \<open>_patch_is_safe\<close>: the first marker that occurs in the patch text, if
  any.
\<close>

fun first_marker_in :: "string list \<Rightarrow> string \<Rightarrow> string option" where
  "first_marker_in [] patch_text = None"
| "first_marker_in (m # ms) patch_text =
     (if py_in m patch_text then Some m else first_marker_in ms patch_text)"

text \<open>
  The second loop: it returns at the first header line that holds \<open>../\<close> or \<open>..\\<close>.
\<close>

fun traversal_in_headers :: "string list \<Rightarrow> bool" where
  "traversal_in_headers [] = False"
| "traversal_in_headers (line # rest) =
     (if startswith line ''+++ '' \<or> startswith line ''--- '' \<or> startswith line ''diff --git ''
      then (if py_in ''../'' line \<or> py_in (''..'' @ [backslash]) line then True
            else traversal_in_headers rest)
      else traversal_in_headers rest)"

text \<open>\<open>_patch_is_safe\<close>; \<open>{m!r}\<close> in the reason is \<open>repr\<close> of the marker.\<close>

definition patch_is_safe :: "string \<Rightarrow> bool \<times> string" where
  "patch_is_safe patch_text =
     (case first_marker_in bad_markers patch_text of
        Some m \<Rightarrow> (False, ''Unsafe patch: contains absolute path marker '' @ py_repr m)
      | None \<Rightarrow>
          if traversal_in_headers (splitlines patch_text)
          then (False, ''Unsafe patch: contains parent traversal in diff header'')
          else (True, ''OK''))"


subsection \<open>What the validator is said to reject\<close>

text \<open>
  The words of the specification: a header line is a line that starts with \<open>+++\<close>,
  \<open>---\<close> or \<open>diff --git\<close>; it is unsafe when its path starts at the root or when it
  holds a parent-directory traversal token.
\<close>

definition header_line :: "string \<Rightarrow> bool" where
  "header_line l \<longleftrightarrow> prefix ''+++ '' l \<or> prefix ''--- '' l \<or> prefix ''diff --git '' l"

definition has_traversal :: "string \<Rightarrow> bool" where
  "has_traversal l \<longleftrightarrow> sublist ''../'' l \<or> sublist (''..'' @ [backslash]) l"

definition has_absolute_path :: "string \<Rightarrow> bool" where
  "has_absolute_path l \<longleftrightarrow>
     prefix ''+++ /'' l \<or> prefix ''--- /'' l \<or> (prefix ''diff --git '' l \<and> sublist '' /'' l)"

definition unsafe_header :: "string \<Rightarrow> bool" where
  "unsafe_header l \<longleftrightarrow> header_line l \<and> (has_absolute_path l \<or> has_traversal l)"

definition traversal_header :: "string \<Rightarrow> bool" where
  "traversal_header l \<longleftrightarrow> header_line l \<and> has_traversal l"

section \<open>The world outside the program\<close>

text \<open>
  Exceptions are values. \<open>RateLimitError\<close> and \<open>APIError\<close> are the two classes of the
  OpenAI client that the retry wrapper names; \<open>APIError\<close> stands for every API error that
  is not a rate-limit error and carries the \<open>status_code\<close> attribute of the exception,
  \<open>None\<close> when the exception has none (a connection error). All of them are subclasses
  of \<open>Exception\<close>.
\<close>

datatype py_exn =
    RateLimitError
  | APIError "int option"
  | TimeoutExpired string
  | OSError string
  | ValueError string
  | AttributeError string
  | RuntimeError string
  | OtherException string

text \<open>
  \<open>str(e)\<close>. The texts of the two errors of the client stand for whatever the client
  library writes; no property below depends on them.
\<close>

fun exn_str :: "py_exn \<Rightarrow> string" where
  "exn_str RateLimitError = ''rate limit''"
| "exn_str (APIError status) = ''api error''"
| "exn_str (TimeoutExpired msg) = msg"
| "exn_str (OSError msg) = msg"
| "exn_str (ValueError msg) = msg"
| "exn_str (AttributeError msg) = msg"
| "exn_str (RuntimeError msg) = msg"
| "exn_str (OtherException msg) = msg"

text \<open>
  A path is an absolute POSIX path, the list of its components below the root.
  \<open>subprocess.run\<close> either completes with a return code, standard output and standard
  error, or raises (the executable is missing, the time limit passed).
\<close>

type_synonym path = "string list"

datatype proc_outcome = Completed int string string | Raises py_exn

type_synonym proc_call = "string list \<times> path \<times> int"

datatype agent = RepoMapper | Planner | Coder | Debugger | Reviewer | Judge

text \<open>
  The prompt of an actor call, by the values its text is built from. The task
  configuration is the same in every prompt of a run and is left out.
\<close>

datatype prompt =
    RepoMapPrompt
  | PlanPrompt string string
  | ImplementPrompt int int string string string string

type_synonym runner_call = "agent \<times> prompt \<times> int"

text \<open>
  The environment gives the outcome of the \<open>n\<close>-th call of \<open>subprocess.run\<close>, of the
  \<open>n\<close>-th call of \<open>Runner.run\<close> and of the \<open>n\<close>-th call of \<open>random.random()\<close>, and the
  branch name that \<open>_branch_name_from_goal\<close> builds from the goal and the clock. The
  world records what the program has done so far.
\<close>

record env =
  subprocess_result :: "nat \<Rightarrow> proc_call \<Rightarrow> proc_outcome"
  runner_result :: "nat \<Rightarrow> runner_call \<Rightarrow> py_exn + string"
  random_value :: "nat \<Rightarrow> rat"
  branch_name_from_goal :: "string \<Rightarrow> string"

record world =
  proc_log :: "proc_call list"
  runner_log :: "runner_call list"
  random_draws :: nat
  sleep_log :: "rat list"
  stdout :: "string list"

definition world0 :: world where
  "world0 = \<lparr>proc_log = [], runner_log = [], random_draws = 0, sleep_log = [], stdout = []\<rparr>"

definition subprocess_run :: "env \<Rightarrow> string list \<Rightarrow> path \<Rightarrow> int \<Rightarrow> world \<Rightarrow> proc_outcome \<times> world" where
  "subprocess_run e argv cwd timeout_sec w =
     (subprocess_result e (length (proc_log w)) (argv, cwd, timeout_sec),
      w\<lparr>proc_log := proc_log w @ [(argv, cwd, timeout_sec)]\<rparr>)"

definition Runner_run :: "env \<Rightarrow> agent \<Rightarrow> prompt \<Rightarrow> int \<Rightarrow> world \<Rightarrow> (py_exn + string) \<times> world" where
  "Runner_run e ag pr max_turns w =
     (runner_result e (length (runner_log w)) (ag, pr, max_turns),
      w\<lparr>runner_log := runner_log w @ [(ag, pr, max_turns)]\<rparr>)"

definition random_random :: "env \<Rightarrow> world \<Rightarrow> rat \<times> world" where
  "random_random e w = (random_value e (random_draws w), w\<lparr>random_draws := Suc (random_draws w)\<rparr>)"

definition asyncio_sleep :: "rat \<Rightarrow> world \<Rightarrow> world" where
  "asyncio_sleep s w = w\<lparr>sleep_log := sleep_log w @ [s]\<rparr>"

definition print :: "string \<Rightarrow> world \<Rightarrow> world" where
  "print s w = w\<lparr>stdout := stdout w @ [s]\<rparr>"

section \<open>The command executor\<close>

text \<open>The text that both executors build from the two streams of a completed process.\<close>

definition combined_output :: "string \<Rightarrow> string \<Rightarrow> string" where
  "combined_output out err =
     strip ((if out \<noteq> [] then out else []) @ (if err \<noteq> [] then LF # err else []))"

text \<open>\<open>_run\<close> of orchestrator.py: every exception of \<open>subprocess.run\<close> is caught.\<close>

definition orchestrator_run :: "env \<Rightarrow> string list \<Rightarrow> path \<Rightarrow> int \<Rightarrow> world \<Rightarrow> (int \<times> string) \<times> world" where
  "orchestrator_run e argv cwd timeout_sec w =
     (case subprocess_run e argv cwd timeout_sec w of
        (Raises ex, w') \<Rightarrow>
          ((1, ''ERROR running command '' @ str_of_list argv @ '': '' @ exn_str ex), w')
      | (Completed returncode out err, w') \<Rightarrow> ((returncode, combined_output out err), w'))"

text \<open>\<open>_run\<close> of tools_repo.py: no \<open>try\<close>, an exception of \<open>subprocess.run\<close> goes to the caller.\<close>

definition tools_repo_run :: "env \<Rightarrow> string list \<Rightarrow> path \<Rightarrow> int \<Rightarrow> world \<Rightarrow> (py_exn + int \<times> string) \<times> world" where
  "tools_repo_run e argv cwd timeout_sec w =
     (case subprocess_run e argv cwd timeout_sec w of
        (Raises ex, w') \<Rightarrow> (Inl ex, w')
      | (Completed returncode out err, w') \<Rightarrow> (Inr (returncode, combined_output out err), w'))"

section \<open>Configuration and context (config.py, context.py)\<close>

record TaskSpec =
  argv :: "string list"
  cwd :: string

record OrchestraConfig =
  tasks :: "string \<rightharpoonup> TaskSpec"

datatype state_value = StrValue string | TaskResult int string

record RepoContext =
  repo_dir :: path
  config :: OrchestraConfig
  session_id :: string
  state :: "string \<rightharpoonup> state_value"

text \<open>
  \<open>base / rel\<close> of pathlib: the components of \<open>rel\<close> are put after those of \<open>base\<close>, empty
  components and \<open>.\<close> are dropped, \<open>..\<close> is kept; an absolute \<open>rel\<close> replaces \<open>base\<close>.
\<close>

fun split_on :: "char \<Rightarrow> string \<Rightarrow> string list" where
  "split_on sep [] = [[]]"
| "split_on sep (c # cs) =
     (if c = sep then [] # split_on sep cs
      else (case split_on sep cs of [] \<Rightarrow> [[c]] | x # xs \<Rightarrow> (c # x) # xs))"

definition path_parts :: "string \<Rightarrow> string list" where
  "path_parts s = filter (\<lambda>p. p \<noteq> [] \<and> p \<noteq> ''.'') (split_on (CHR ''/'') s)"

definition path_join :: "path \<Rightarrow> string \<Rightarrow> path" where
  "path_join base rel = (if startswith rel ''/'' then path_parts rel else base @ path_parts rel)"

section \<open>Branch creation (orchestrator.py, tools_repo.py)\<close>

definition invalid_branch_parts :: "string list" where
  "invalid_branch_parts = [''..'', ''~'', ''^'', '':'', '' '', [backslash]]"

text \<open>\<open>any(x in name for x in [...])\<close>\<close>

fun any_in :: "string list \<Rightarrow> string \<Rightarrow> bool" where
  "any_in [] name = False"
| "any_in (x # xs) name = (if py_in x name then True else any_in xs name)"

text \<open>\<open>_git_create_branch\<close> of orchestrator.py\<close>

definition orchestrator_git_create_branch :: "env \<Rightarrow> path \<Rightarrow> string \<Rightarrow> world \<Rightarrow> string \<times> world" where
  "orchestrator_git_create_branch e dir name w =
     (if any_in invalid_branch_parts name then (''ERROR: invalid branch name'', w)
      else (case orchestrator_run e [''git'', ''checkout'', ''-b'', name] dir 60 w of
              ((code, out), w') \<Rightarrow>
                if code \<noteq> 0 then (''ERROR: git checkout -b failed'' @ [LF] @ out, w')
                else (''OK: on branch '' @ name, w')))"

text \<open>\<open>git_create_branch\<close> of tools_repo.py: the tool the actors call.\<close>

definition git_create_branch :: "env \<Rightarrow> RepoContext \<Rightarrow> string \<Rightarrow> world \<Rightarrow> (py_exn + string) \<times> RepoContext \<times> world" where
  "git_create_branch e ctx name w =
     (if any_in invalid_branch_parts name then (Inr ''ERROR: invalid branch name'', ctx, w)
      else (case tools_repo_run e [''git'', ''checkout'', ''-b'', name] (repo_dir ctx) 60 w of
              (Inl ex, w') \<Rightarrow> (Inl ex, ctx, w')
            | (Inr (code, out), w') \<Rightarrow>
                if code \<noteq> 0 then (Inr (''ERROR: git checkout -b failed'' @ [LF] @ out), ctx, w')
                else (Inr (''OK: on branch '' @ name),
                      ctx\<lparr>state := (state ctx)(''branch'' \<mapsto> StrValue name)\<rparr>, w')))"

section \<open>The task runner (orchestrator.py)\<close>

definition TASK_ORDER :: "string list" where
  "TASK_ORDER = [''format'', ''lint'', ''typecheck'', ''test'', ''build'']"

datatype task_status = Skipped | TaskOutcome bool int string string

text \<open>
  The loop of \<open>_run_tasks\<close> over the tasks still to visit. A task without a
  \<open>TaskSpec\<close> is recorded as skipped; the loop is left at the first return code that
  is not 0.
\<close>

fun run_tasks_loop ::
  "env \<Rightarrow> RepoContext \<Rightarrow> string list \<Rightarrow> (string \<rightharpoonup> task_status) \<Rightarrow> world
     \<Rightarrow> (string \<rightharpoonup> task_status) \<times> world" where
  "run_tasks_loop e ctx [] status w = (status, w)"
| "run_tasks_loop e ctx (task # later) status w =
     (case tasks (config ctx) task of
        None \<Rightarrow> run_tasks_loop e ctx later (status(task \<mapsto> Skipped)) w
      | Some spec \<Rightarrow>
          (case orchestrator_run e (argv spec) (path_join (repo_dir ctx) (cwd spec)) 900 w of
             ((code, out), w') \<Rightarrow>
               (let tail = last_chars 4000 out;
                    ok = (code = 0);
                    status' = status(task \<mapsto> TaskOutcome ok code (join '' '' (argv spec)) tail)
                in if \<not> ok then (status', w')
                   else run_tasks_loop e ctx later status' w')))"

definition run_tasks :: "env \<Rightarrow> RepoContext \<Rightarrow> world \<Rightarrow> (string \<rightharpoonup> task_status) \<times> world" where
  "run_tasks e ctx w = run_tasks_loop e ctx TASK_ORDER Map.empty w"

subsection \<open>What a run of the task runner leaves behind\<close>

text \<open>
  The call of \<open>subprocess.run\<close> that belongs to a task. What the executor of the
  orchestrator reports for the \<open>n\<close>-th call of \<open>subprocess.run\<close>: the return code and
  the combined output of the process, or 1 and the error text when the process could not
  be run. The entry that is recorded for a task whose command has run with that report.
\<close>

definition task_call :: "RepoContext \<Rightarrow> TaskSpec \<Rightarrow> proc_call" where
  "task_call ctx spec = (argv spec, path_join (repo_dir ctx) (cwd spec), 900)"

definition executor_result :: "env \<Rightarrow> nat \<Rightarrow> proc_call \<Rightarrow> int \<times> string" where
  "executor_result e n call =
     (case subprocess_result e n call of
        Raises ex \<Rightarrow> (1, ''ERROR running command '' @ str_of_list (fst call) @ '': '' @ exn_str ex)
      | Completed returncode out err \<Rightarrow> (returncode, combined_output out err))"

definition task_entry :: "TaskSpec \<Rightarrow> int \<times> string \<Rightarrow> task_status" where
  "task_entry spec r =
     TaskOutcome (fst r = 0) (fst r) (join '' '' (argv spec)) (last_chars 4000 (snd r))"

text \<open>
  The number of the call of \<open>subprocess.run\<close> that runs the command of task \<open>t\<close>: the
  calls made before the runner started, and one call for every visited task before \<open>t\<close>
  that has a command. The exit code and the output of that call.
\<close>

definition call_index :: "RepoContext \<Rightarrow> world \<Rightarrow> string list \<Rightarrow> string \<Rightarrow> nat" where
  "call_index ctx w vis t =
     length (proc_log w)
       + length (List.map_filter (tasks (config ctx)) (takeWhile (\<lambda>x. x \<noteq> t) vis))"

definition task_result ::
  "env \<Rightarrow> RepoContext \<Rightarrow> world \<Rightarrow> string list \<Rightarrow> string \<Rightarrow> TaskSpec \<Rightarrow> int \<times> string" where
  "task_result e ctx w vis t spec = executor_result e (call_index ctx w vis t) (task_call ctx spec)"

text \<open>
  \<open>vis\<close> are the tasks visited, \<open>rest\<close> the tasks never reached. The mapping has an
  entry for the visited tasks and for no other. A visited task without a \<open>TaskSpec\<close> is
  recorded as skipped; a visited task with a \<open>TaskSpec\<close> is recorded with the exit code
  and the output that its own process returned. The commands run are those of the visited
  tasks that have one, in order. The process of every visited task but the last returned
  exit code 0, and when a task was not reached, the last visited task has a command and
  its process returned an exit code other than 0.
\<close>

definition visited_prefix ::
  "env \<Rightarrow> RepoContext \<Rightarrow> world \<Rightarrow> (string \<rightharpoonup> task_status) \<Rightarrow> world \<Rightarrow> string list \<Rightarrow> string list
     \<Rightarrow> bool" where
  "visited_prefix e ctx w status w' vis rest \<longleftrightarrow>
     TASK_ORDER = vis @ rest
     \<and> dom status = set vis
     \<and> (\<forall>t \<in> set vis. tasks (config ctx) t = None \<longrightarrow> status t = Some Skipped)
     \<and> (\<forall>t \<in> set vis. \<forall>spec. tasks (config ctx) t = Some spec \<longrightarrow>
           status t = Some (task_entry spec (task_result e ctx w vis t spec)))
     \<and> proc_log w' = proc_log w @ map (task_call ctx) (List.map_filter (tasks (config ctx)) vis)
     \<and> (\<forall>t \<in> set (butlast vis). \<forall>spec. tasks (config ctx) t = Some spec \<longrightarrow>
           fst (task_result e ctx w vis t spec) = 0)
     \<and> (rest \<noteq> [] \<longrightarrow> vis \<noteq> []
           \<and> (\<exists>spec. tasks (config ctx) (last vis) = Some spec
                 \<and> fst (task_result e ctx w vis (last vis) spec) \<noteq> 0))"

subsection \<open>Two environments and a context to run the code in\<close>

text \<open>
  In \<open>env_ok\<close> every command completes with return code 0. In \<open>env_lint_fails\<close> the
  lint command completes with return code 1; in \<open>env_missing_tool\<close> no command can be
  started. The context has a format, a lint and a test task.
\<close>

definition env_ok :: env where
  "env_ok = \<lparr>subprocess_result = (\<lambda>n call. Completed 0 ''done'' []),
             runner_result = (\<lambda>n call. Inr ''{}''),
             random_value = (\<lambda>n. 0),
             branch_name_from_goal = (\<lambda>goal. ''ai/change'')\<rparr>"

definition env_lint_fails :: env where
  "env_lint_fails = env_ok\<lparr>subprocess_result :=
     (\<lambda>n (args, dir, t). if args = [''npm'', ''run'', ''lint'']
                          then Completed 1 [] ''SyntaxError line 4''
                          else Completed 0 ''done'' [])\<rparr>"

definition env_missing_tool :: env where
  "env_missing_tool = env_ok\<lparr>subprocess_result :=
     (\<lambda>n call. Raises (OSError ''No such file or directory''))\<rparr>"

definition ctx_npm :: RepoContext where
  "ctx_npm = \<lparr>repo_dir = [''repo''],
              config = \<lparr>tasks = [''format'' \<mapsto> \<lparr>argv = [''npm'', ''run'', ''format''], cwd = ''.''\<rparr>,
                                 ''lint'' \<mapsto> \<lparr>argv = [''npm'', ''run'', ''lint''], cwd = ''.''\<rparr>,
                                 ''test'' \<mapsto> \<lparr>argv = [''npm'', ''test''], cwd = ''.''\<rparr>]\<rparr>,
              session_id = ''relialimo_dev'',
              state = Map.empty\<rparr>"

section \<open>Python floats\<close>

text \<open>
  A Python float is an IEEE 754 double: 53 bits of significand, and the result of an
  operation is the exact result rounded to the nearest double, a tie going to the double
  with the even significand. The doubles are modelled by the rationals they denote. The
  exponent is not bounded in the model: the sleep time of the retry wrapper is computed
  from numbers between \<open>2 ^ -55\<close> and 25, far from the ends of the range of a double.

  \<open>round_half_even\<close> rounds a rational to the nearest integer. For a positive \<open>x\<close>,
  \<open>binade x\<close> is the exponent \<open>e\<close> with \<open>2 ^ e \<le> x < 2 ^ (e + 1)\<close>; the doubles from
  \<open>2 ^ e\<close> to \<open>2 ^ (e + 1)\<close> are the multiples of \<open>2 ^ (e - 52)\<close>.
\<close>

definition round_half_even :: "rat \<Rightarrow> int" where
  "round_half_even x =
     (let n = \<lfloor>x\<rfloor>; f = x - of_int n
      in if f < 1 / 2 then n else if 1 / 2 < f then n + 1 else if even n then n else n + 1)"

definition binade :: "rat \<Rightarrow> int" where
  "binade x =
     (case quotient_of x of
        (p, q) \<Rightarrow> (let k = bitlen p - bitlen q in if power_int 2 k \<le> x then k else k - 1))"

definition round_double :: "rat \<Rightarrow> rat" where
  "round_double x =
     (if x = 0 then 0
      else (let u = power_int 2 (binade \<bar>x\<bar> - 52) in of_int (round_half_even (x / u)) * u))"

text \<open>\<open>x + y\<close> and \<open>x * y\<close> on floats.\<close>

definition float_add :: "rat \<Rightarrow> rat \<Rightarrow> rat" where
  "float_add x y = round_double (x + y)"

definition float_mul :: "rat \<Rightarrow> rat \<Rightarrow> rat" where
  "float_mul x y = round_double (x * y)"

text \<open>
  The values of \<open>random.random()\<close>: the multiples of \<open>2 ^ -53\<close> from 0 up to, and not
  including, 1.
\<close>

definition random_double :: "rat \<Rightarrow> bool" where
  "random_double r \<longleftrightarrow> 0 \<le> r \<and> r < 1 \<and> of_int \<lfloor>r * 2 ^ 53\<rfloor> = r * 2 ^ 53"

section \<open>The resilient call wrapper (orchestrator.py)\<close>

text \<open>\<open>status is not None and status < 500\<close>\<close>

definition client_status :: "int option \<Rightarrow> bool" where
  "client_status status = (case status of None \<Rightarrow> False | Some s \<Rightarrow> s < 500)"

text \<open>
  The body of both retrying \<open>except\<close> clauses: the sleep time is drawn, the line is
  printed, the coroutine sleeps. \<open>min(20.0, delay)\<close> is exact; the two products and the
  sum of \<open>min(20.0, delay) * (1.0 + random.random() * 0.25)\<close> are rounded. The delay
  is \<open>0.5\<close> times a power of two, and \<open>delay *= 2\<close> is exact.
\<close>

definition back_off :: "env \<Rightarrow> string \<Rightarrow> string \<Rightarrow> int \<Rightarrow> int \<Rightarrow> rat \<Rightarrow> world \<Rightarrow> world" where
  "back_off e tag label attempt max_attempts delay w =
     (case random_random e w of
        (r, w1) \<Rightarrow>
          (let sleep_s = float_mul (min 20 delay) (float_add 1 (float_mul r (1 / 4)))
           in asyncio_sleep sleep_s
                (print (tag @ label @ '': retrying (attempt '' @ str_of_int attempt @ ''/''
                          @ str_of_int max_attempts @ '')'') w1)))"

text \<open>
  The loop of \<open>_run_agent_with_backoff\<close> over the attempts still to make, with the
  current delay. An exception that neither \<open>except\<close> clause names is not caught.
\<close>

fun backoff_attempts ::
  "env \<Rightarrow> string \<Rightarrow> agent \<Rightarrow> prompt \<Rightarrow> int \<Rightarrow> int \<Rightarrow> int list \<Rightarrow> rat \<Rightarrow> world
     \<Rightarrow> (py_exn + string) \<times> world" where
  "backoff_attempts e label ag pr max_turns max_attempts [] delay w =
     (Inl (RuntimeError (label @ '': exceeded retries after '' @ str_of_int max_attempts
                           @ '' attempts'')), w)"
| "backoff_attempts e label ag pr max_turns max_attempts (attempt # later) delay w =
     (case Runner_run e ag pr max_turns w of
        (outcome, w1) \<Rightarrow>
          (case outcome of
             Inr result \<Rightarrow> (Inr result, w1)
           | Inl ex \<Rightarrow>
               (case ex of
                  RateLimitError \<Rightarrow>
                    backoff_attempts e label ag pr max_turns max_attempts later (delay * 2)
                      (back_off e ''[rate-limit] '' label attempt max_attempts delay w1)
                | APIError status \<Rightarrow>
                    if client_status status then (Inl ex, w1)
                    else backoff_attempts e label ag pr max_turns max_attempts later (delay * 2)
                           (back_off e ''[openai-5xx] '' label attempt max_attempts delay w1)
                | _ \<Rightarrow> (Inl ex, w1))))"

definition run_agent_with_backoff ::
  "env \<Rightarrow> string \<Rightarrow> agent \<Rightarrow> prompt \<Rightarrow> int \<Rightarrow> int \<Rightarrow> world \<Rightarrow> (py_exn + string) \<times> world" where
  "run_agent_with_backoff e label ag pr max_turns max_attempts w =
     backoff_attempts e label ag pr max_turns max_attempts [1..max_attempts] (1 / 2) w"

text \<open>The default of the parameter \<open>max_attempts\<close>.\<close>

definition default_max_attempts :: int where
  "default_max_attempts = 8"

subsection \<open>Classifications of a failure\<close>

text \<open>
  The specification calls a failure retryable when it is a rate-limit failure or carries
  a numeric status code of 500 or more. The code retries a failure when it is a
  rate-limit error, or an API error that does not carry a status code below 500.
\<close>

fun claimed_retryable :: "py_exn \<Rightarrow> bool" where
  "claimed_retryable RateLimitError = True"
| "claimed_retryable (APIError (Some s)) = (500 \<le> s)"
| "claimed_retryable _ = False"

fun retried :: "py_exn \<Rightarrow> bool" where
  "retried RateLimitError = True"
| "retried (APIError status) = (\<not> client_status status)"
| "retried _ = False"

text \<open>The \<open>i\<close>-th base delay: 0.5, doubled \<open>i\<close> times, capped at 20.\<close>

definition base_delay :: "nat \<Rightarrow> rat" where
  "base_delay i = min 20 (1 / 2 * 2 ^ i)"

text \<open>The message of the terminal error.\<close>

definition exceeded_retries :: "string \<Rightarrow> int \<Rightarrow> py_exn" where
  "exceeded_retries label max_attempts =
     RuntimeError (label @ '': exceeded retries after '' @ str_of_int max_attempts @ '' attempts'')"

subsection \<open>Environments for the wrapper\<close>

text \<open>
  The actor fails twice with a rate-limit error and then answers; the actor fails once
  with an API error that has no status code and then answers; the actor is rejected with
  status 401; the actor always fails with status 503.
\<close>

definition env_two_rate_limits :: env where
  "env_two_rate_limits = env_ok\<lparr>runner_result :=
     (\<lambda>n call. if n < 2 then Inl RateLimitError else Inr ''{}''), random_value := (\<lambda>n. 1 / 2)\<rparr>"

definition env_connection_error :: env where
  "env_connection_error = env_ok\<lparr>runner_result :=
     (\<lambda>n call. if n < 1 then Inl (APIError None) else Inr ''{}'')\<rparr>"

definition env_unauthorized :: env where
  "env_unauthorized = env_ok\<lparr>runner_result := (\<lambda>n call. Inl (APIError (Some 401)))\<rparr>"

definition env_unavailable :: env where
  "env_unavailable = env_ok\<lparr>runner_result := (\<lambda>n call. Inl (APIError (Some 503)))\<rparr>"

text \<open>
  The actor fails once with a rate-limit error and then answers, and \<open>random.random()\<close>
  returns its largest value, \<open>1 - 2 ^ -53\<close>.
\<close>

definition env_top_jitter :: env where
  "env_top_jitter = env_ok\<lparr>runner_result :=
     (\<lambda>n call. if n < 1 then Inl RateLimitError else Inr ''{}''),
     random_value := (\<lambda>n. 9007199254740991 / 9007199254740992)\<rparr>"

text \<open>
  The time slept after the \<open>i\<close>-th failure of a call that starts with the given delay,
  when \<open>r0\<close> random numbers have been drawn before the call.
\<close>

definition sleep_time :: "env \<Rightarrow> rat \<Rightarrow> nat \<Rightarrow> nat \<Rightarrow> rat" where
  "sleep_time e delay r0 i =
     float_mul (min 20 (delay * 2 ^ i)) (float_add 1 (float_mul (random_value e (r0 + i)) (1 / 4)))"

section \<open>Paths inside the repository (context.py, tools_repo.py)\<close>

text \<open>
  \<open>Path.resolve()\<close> makes a path absolute and follows symbolic links; what it returns
  depends on the file system, so it is a parameter of \<open>abs_path\<close>. \<open>resolve_lexical\<close> is
  its value on a file system without symbolic links: \<open>..\<close> steps to the parent, and the
  parent of the root is the root.
\<close>

definition resolve_lexical :: "path \<Rightarrow> path" where
  "resolve_lexical p = foldl (\<lambda>acc c. if c = ''..'' then butlast acc else acc @ [c]) [] p"

text \<open>\<open>candidate.parents\<close>: the proper ancestors of a path, the nearest first.\<close>

definition parents :: "path \<Rightarrow> path list" where
  "parents p = map (\<lambda>n. take n p) (rev [0..<length p])"

definition abs_path :: "(path \<Rightarrow> path) \<Rightarrow> RepoContext \<Rightarrow> string \<Rightarrow> py_exn + path" where
  "abs_path resolve ctx rel_path =
     (let candidate = resolve (path_join (repo_dir ctx) rel_path);
          repo_root = resolve (repo_dir ctx)
      in if repo_root \<notin> set (parents candidate) \<and> candidate \<noteq> repo_root
         then Inl (ValueError (''Path escapes repo: '' @ rel_path))
         else Inr candidate)"

text \<open>
  The file system: the text of every regular file, and the log of the accesses made by
  the tools. A path is a regular file or does not exist; directories as targets and
  errors of the operating system during an access are outside the model.
\<close>

datatype fs_event = FsExists path | FsIsFile path | FsRead path | FsMkdir path | FsWrite path string

record filesystem =
  files :: "path \<rightharpoonup> string"
  fs_log :: "fs_event list"

definition fs_access :: "fs_event list \<Rightarrow> filesystem \<Rightarrow> filesystem" where
  "fs_access evs fs = fs\<lparr>fs_log := fs_log fs @ evs\<rparr>"

text \<open>\<open>f"{i:>6}"\<close>: the number, right-aligned in six columns.\<close>

definition rjust6 :: "string \<Rightarrow> string" where
  "rjust6 s = replicate (6 - length s) (CHR '' '') @ s"

text \<open>\<open>read_file\<close> of tools_repo.py\<close>

definition read_file ::
  "(path \<Rightarrow> path) \<Rightarrow> RepoContext \<Rightarrow> string \<Rightarrow> int \<Rightarrow> int \<Rightarrow> filesystem \<Rightarrow> (py_exn + string) \<times> filesystem" where
  "read_file resolve ctx rel start_line end_line fs =
     (case abs_path resolve ctx rel of
        Inl ex \<Rightarrow> (Inl ex, fs)
      | Inr p \<Rightarrow>
          (case files fs p of
             None \<Rightarrow> (Inr (''ERROR: file not found: '' @ rel), fs_access [FsExists p] fs)
           | Some content \<Rightarrow>
               (let text = splitlines content;
                    start = max 1 start_line;
                    stop = min (int (length text)) end_line;
                    lines = map (\<lambda>i. rjust6 (str_of_int i) @ '' | '' @ text ! nat (i - 1)) [start..stop];
                    header = ''FILE: '' @ rel @ '' (lines '' @ str_of_int start @ ''-'' @ str_of_int stop
                               @ '' of '' @ str_of_nat (length text) @ '')''
                in (Inr (header @ [LF] @ join [LF] lines),
                    fs_access [FsExists p, FsIsFile p, FsRead p] fs))))"

text \<open>\<open>write_file\<close> of tools_repo.py\<close>

definition write_file ::
  "(path \<Rightarrow> path) \<Rightarrow> RepoContext \<Rightarrow> string \<Rightarrow> string \<Rightarrow> bool \<Rightarrow> filesystem \<Rightarrow> (py_exn + string) \<times> filesystem" where
  "write_file resolve ctx rel content create_dirs fs =
     (case abs_path resolve ctx rel of
        Inl ex \<Rightarrow> (Inl ex, fs)
      | Inr p \<Rightarrow>
          (let fs1 = (if create_dirs then fs_access [FsMkdir (butlast p)] fs else fs);
               fs2 = fs_access [FsWrite p content] (fs1\<lparr>files := (files fs1)(p \<mapsto> content)\<rparr>)
           in (Inr (''OK: wrote '' @ rel @ '' ('' @ str_of_nat (length content) @ '' bytes)''), fs2)))"

text \<open>
  The words of the specification: a resolved path is inside the repository when it is
  the root or a descendant of the root.
\<close>

definition inside_repo :: "path \<Rightarrow> path \<Rightarrow> bool" where
  "inside_repo repo_root p \<longleftrightarrow> p = repo_root \<or> strict_prefix repo_root p"

definition fs_example :: filesystem where
  "fs_example = \<lparr>files = [[''repo'', ''README.md''] \<mapsto> ''hello'' @ [LF] @ ''world''], fs_log = []\<rparr>"

section \<open>Loading the configuration (config.py)\<close>

text \<open>
  The value that \<open>json.loads\<close> returns. A JSON object becomes a \<open>dict\<close>: the list of its
  items, with distinct keys.
\<close>

datatype json =
    JNull
  | JBool bool
  | JInt int
  | JFloat rat
  | JString string
  | JArray "json list"
  | JObject "(string \<times> json) list"

fun type_name :: "json \<Rightarrow> string" where
  "type_name JNull = ''NoneType''"
| "type_name (JBool b) = ''bool''"
| "type_name (JInt i) = ''int''"
| "type_name (JFloat f) = ''float''"
| "type_name (JString s) = ''str''"
| "type_name (JArray xs) = ''list''"
| "type_name (JObject kvs) = ''dict''"

text \<open>The exception of an attribute that the value does not have.\<close>

definition no_attribute :: "json \<Rightarrow> string \<Rightarrow> py_exn" where
  "no_attribute v name =
     AttributeError ([squote] @ type_name v @ [squote] @ '' object has no attribute ''
                       @ [squote] @ name @ [squote])"

text \<open>\<open>isinstance(x, str)\<close> and the text of a string value.\<close>

fun is_str :: "json \<Rightarrow> bool" where
  "is_str (JString s) = True"
| "is_str _ = False"

fun the_str :: "json \<Rightarrow> string" where
  "the_str (JString s) = s"
| "the_str _ = []"

definition TASK_NAMES :: "string list" where
  "TASK_NAMES = [''install'', ''format'', ''lint'', ''typecheck'', ''test'', ''build'']"

text \<open>The loop of \<open>OrchestraConfig.load\<close> over the items of \<open>raw_tasks\<close>.\<close>

fun load_tasks :: "(string \<times> json) list \<Rightarrow> (string \<rightharpoonup> TaskSpec) \<Rightarrow> (string \<rightharpoonup> TaskSpec)" where
  "load_tasks [] ts = ts"
| "load_tasks ((k, v) # rest) ts =
     (if k \<notin> set TASK_NAMES then load_tasks rest ts
      else (case v of
              JArray xs \<Rightarrow>
                if \<not> list_all is_str xs then load_tasks rest ts
                else load_tasks rest (ts(k \<mapsto> \<lparr>argv = map the_str xs, cwd = ''.''\<rparr>))
            | _ \<Rightarrow> load_tasks rest ts))"

text \<open>
  \<open>OrchestraConfig.load\<close>, from the parsed text of the file on. \<open>data.get\<close> needs a
  \<open>dict\<close>, and so does \<open>raw_tasks.items()\<close>.
\<close>

definition load :: "json \<Rightarrow> py_exn + OrchestraConfig" where
  "load data =
     (case data of
        JObject items \<Rightarrow>
          (case map_of items ''tasks'' of
             None \<Rightarrow> Inr \<lparr>tasks = load_tasks [] Map.empty\<rparr>
           | Some raw_tasks \<Rightarrow>
               (case raw_tasks of
                  JObject raw \<Rightarrow> Inr \<lparr>tasks = load_tasks raw Map.empty\<rparr>
                | _ \<Rightarrow> Inl (no_attribute raw_tasks ''items'')))
      | _ \<Rightarrow> Inl (no_attribute data ''get''))"

text \<open>
  An entry of \<open>raw_tasks\<close> is kept when its key is a task name and its value is a list
  of strings; the \<open>TaskSpec\<close> of a kept entry.
\<close>

definition valid_entry :: "string \<Rightarrow> json \<Rightarrow> bool" where
  "valid_entry k v \<longleftrightarrow>
     k \<in> set TASK_NAMES \<and> (case v of JArray xs \<Rightarrow> list_all is_str xs | _ \<Rightarrow> False)"

definition spec_of :: "json \<Rightarrow> TaskSpec" where
  "spec_of v = \<lparr>argv = (case v of JArray xs \<Rightarrow> map the_str xs | _ \<Rightarrow> []), cwd = ''.''\<rparr>"

definition raw_example :: "(string \<times> json) list" where
  "raw_example =
     [(''lint'', JArray [JString ''npm'', JString ''run'', JString ''lint'']),
      (''deploy'', JArray [JString ''make'', JString ''deploy'']),
      (''test'', JString ''pytest''),
      (''build'', JArray [JString ''make'', JInt 3])]"

section \<open>The pipeline controller (orchestrator.py)\<close>

record OrchestraRunResult =
  repo_map :: string
  plan :: string
  final_status :: "string \<rightharpoonup> task_status"
  review :: string
  judge :: string
  diff :: string

text \<open>\<open>_git_status\<close>\<close>

definition orchestrator_git_status :: "env \<Rightarrow> path \<Rightarrow> world \<Rightarrow> string \<times> world" where
  "orchestrator_git_status e dir w =
     (case orchestrator_run e [''git'', ''status'', ''--porcelain=v1''] dir 60 w of
        ((code, out), w') \<Rightarrow>
          if code \<noteq> 0 then (''ERROR: git status failed'' @ [LF] @ out, w')
          else (if out \<noteq> [] then out else ''(clean)'', w'))"

text \<open>
  In orchestrator.py the line \<open>async def _run_agent_with_backoff\<close> stands at column 0
  right after the call of \<open>_run_tasks\<close> in the implement loop. The body of
  \<open>run_orchestra\<close> ends there. The statements behind the wrapper (the search for the
  first failure, the diagnosis and the fix, review, judge, the commit and the
  \<open>return\<close> of the result) are indented deeper than the \<open>raise\<close> that ends the
  wrapper and belong to no function.

  The loop of \<open>run_orchestra\<close> as it stands: the git status for the prompt, the call of
  the coder, the run of the tasks. \<open>last_failure_output\<close> is never assigned in it and
  stays empty. Every actor is called with \<open>Runner.run\<close> itself.
\<close>

fun implement_loop ::
  "env \<Rightarrow> RepoContext \<Rightarrow> string \<Rightarrow> string \<Rightarrow> int \<Rightarrow> int list \<Rightarrow> (string \<rightharpoonup> task_status) \<Rightarrow> world
     \<Rightarrow> (py_exn + (string \<rightharpoonup> task_status)) \<times> world" where
  "implement_loop e ctx goal plan_json max_iterations [] status w = (Inr status, w)"
| "implement_loop e ctx goal plan_json max_iterations (i # later) status w =
     (case orchestrator_git_status e (repo_dir ctx) w of
        (git_status, w1) \<Rightarrow>
          (case Runner_run e Coder
                  (ImplementPrompt i max_iterations goal plan_json git_status []) 60 w1 of
             (Inl ex, w2) \<Rightarrow> (Inl ex, w2)
           | (Inr coder_output, w2) \<Rightarrow>
               (case run_tasks e ctx w2 of
                  (status', w3) \<Rightarrow>
                    implement_loop e ctx goal plan_json max_iterations later status' w3)))"

text \<open>
  \<open>run_orchestra\<close>, called with the resolved repository directory and the loaded
  configuration. It falls off its end after the loop and returns \<open>None\<close>.
\<close>

definition run_orchestra ::
  "env \<Rightarrow> path \<Rightarrow> string \<Rightarrow> OrchestraConfig \<Rightarrow> string \<Rightarrow> int \<Rightarrow> bool \<Rightarrow> bool \<Rightarrow> world
     \<Rightarrow> (py_exn + OrchestraRunResult option) \<times> world" where
  "run_orchestra e dir goal cfg sid max_iterations create_branch commit w =
     (let ctx = \<lparr>repo_dir = dir, config = cfg, session_id = sid, state = Map.empty\<rparr>;
          (ctx1, w1) =
            (if create_branch
             then (let branch = branch_name_from_goal e goal;
                       (msg, w') = orchestrator_git_create_branch e dir branch w
                   in (ctx\<lparr>state := (state ctx)(''branch'' \<mapsto> StrValue branch)\<rparr>, w'))
             else (ctx, w))
      in case Runner_run e RepoMapper RepoMapPrompt 30 w1 of
           (Inl ex, w2) \<Rightarrow> (Inl ex, w2)
         | (Inr repo_map_json, w2) \<Rightarrow>
             (case Runner_run e Planner (PlanPrompt goal repo_map_json) 20 w2 of
                (Inl ex, w3) \<Rightarrow> (Inl ex, w3)
              | (Inr plan_json, w3) \<Rightarrow>
                  (case implement_loop e ctx1 goal plan_json max_iterations [1..max_iterations]
                          Map.empty w3 of
                     (Inl ex, w4) \<Rightarrow> (Inl ex, w4)
                   | (Inr status, w4) \<Rightarrow> (Inr None, w4))))"

text \<open>The test command fails in every run; every actor answers.\<close>

definition env_test_fails :: env where
  "env_test_fails = env_ok\<lparr>subprocess_result :=
     (\<lambda>n (args, dir, t). if args = [''npm'', ''test'']
                          then Completed 1 [] ''1 test failed''
                          else Completed 0 ''done'' [])\<rparr>"

section \<open>Properties of the patch safety validator\<close>

lemma startswith_prefix: "startswith s p \<longleftrightarrow> prefix p s"
  by (induction s p rule: startswith.induct) auto

lemma py_in_sublist: "py_in m s \<longleftrightarrow> sublist m s"
  by (induction s) (auto simp: startswith_prefix sublist_Cons_right)

lemma first_marker_in_None:
  "first_marker_in ms t = None \<longleftrightarrow> (\<forall>m \<in> set ms. \<not> sublist m t)"
  by (induction ms) (auto simp: py_in_sublist)

lemma traversal_in_headers_iff:
  "traversal_in_headers ls \<longleftrightarrow> list_ex traversal_header ls"
  by (induction ls)
     (auto simp: traversal_header_def header_line_def has_traversal_def
                 startswith_prefix py_in_sublist)

lemma patch_is_safe_fst:
  "fst (patch_is_safe t) \<longleftrightarrow>
     first_marker_in bad_markers t = None \<and> \<not> traversal_in_headers (splitlines t)"
  by (simp add: patch_is_safe_def split: option.split)

lemma patch_is_safe_accepted:
  "fst (patch_is_safe t) \<longleftrightarrow>
     (\<forall>m \<in> set bad_markers. \<not> sublist m t) \<and> \<not> list_ex traversal_header (splitlines t)"
  unfolding patch_is_safe_fst first_marker_in_None traversal_in_headers_iff ..

lemma linebreak_LF: "is_linebreak LF" and linebreak_CR: "is_linebreak CR" and LF_not_CR: "LF \<noteq> CR"
  by (simp_all add: is_linebreak_def LF_def CR_def)

lemma splitlines_from_current:
  "cur \<noteq> [] \<Longrightarrow> \<exists>l \<in> set (splitlines_from cur s). prefix cur l"
proof (induction s arbitrary: cur)
  case Nil
  then show ?case by simp
next
  case (Cons c cs)
  show ?case
  proof (cases "c = CR")
    case True
    show ?thesis
    proof (cases cs)
      case Nil
      with True show ?thesis by simp
    next
      case inner: (Cons d ds)
      with True show ?thesis by simp
    qed
  next
    case False
    show ?thesis
    proof (cases "is_linebreak c")
      case True
      with False show ?thesis by simp
    next
      case nb: False
      with False have eq: "splitlines_from cur (c # cs) = splitlines_from (cur @ [c]) cs" by simp
      from Cons.IH [of "cur @ [c]"] obtain l where
        l: "l \<in> set (splitlines_from (cur @ [c]) cs)" and p: "prefix (cur @ [c]) l" by auto
      from p have "prefix cur l" by (rule append_prefixD)
      with l show ?thesis unfolding eq by (rule bexI [rotated])
    qed
  qed
qed

lemma splitlines_from_line_start:
  assumes "\<forall>c \<in> set m. \<not> is_linebreak c" and "cur @ m \<noteq> []"
  shows "\<exists>l \<in> set (splitlines_from cur (m @ ss)). prefix (cur @ m) l"
  using assms
proof (induction m arbitrary: cur)
  case Nil
  then show ?case using splitlines_from_current [of cur ss] by simp
next
  case (Cons c m)
  have nb: "\<not> is_linebreak c" and nc: "c \<noteq> CR" using Cons.prems(1) linebreak_CR by auto
  then have eq: "splitlines_from cur ((c # m) @ ss) = splitlines_from (cur @ [c]) (m @ ss)" by simp
  from Cons.IH [of "cur @ [c]"] Cons.prems(1)
  have "\<exists>l \<in> set (splitlines_from (cur @ [c]) (m @ ss)). prefix ((cur @ [c]) @ m) l" by simp
  then show ?case unfolding eq by simp
qed

lemma splitlines_from_after_newline:
  assumes "\<forall>c \<in> set m. \<not> is_linebreak c" and "m \<noteq> []"
  shows "\<exists>l \<in> set (splitlines_from cur (ps @ LF # m @ ss)). prefix m l"
proof (induction "length ps" arbitrary: ps cur rule: less_induct)
  case less
  have start: "\<exists>l \<in> set (splitlines_from [] (m @ ss)). prefix m l"
    using splitlines_from_line_start [OF assms(1), of "[]" ss] assms(2) by simp
  show ?case
  proof (cases ps)
    case Nil
    have "splitlines_from cur (LF # m @ ss) = cur # splitlines_from [] (m @ ss)"
      using linebreak_LF LF_not_CR by simp
    with start Nil show ?thesis by simp
  next
    case (Cons c cs)
    show ?thesis
    proof (cases "c = CR")
      case True
      show ?thesis
      proof (cases cs)
        case Nil
        have "splitlines_from cur (CR # LF # m @ ss) = cur # splitlines_from [] (m @ ss)" by simp
        with start Nil Cons True show ?thesis by simp
      next
        case inner: (Cons d ds)
        show ?thesis
        proof (cases "d = LF")
          case dl: True
          have "splitlines_from cur (CR # LF # ds @ LF # m @ ss)
                  = cur # splitlines_from [] (ds @ LF # m @ ss)" by simp
          moreover have "\<exists>l \<in> set (splitlines_from [] (ds @ LF # m @ ss)). prefix m l"
            by (rule less) (simp add: Cons inner)
          ultimately show ?thesis using Cons True inner dl by simp
        next
          case False
          then have "splitlines_from cur (CR # d # ds @ LF # m @ ss)
                  = cur # splitlines_from [] (d # ds @ LF # m @ ss)" by simp
          moreover have "\<exists>l \<in> set (splitlines_from [] ((d # ds) @ LF # m @ ss)). prefix m l"
            by (rule less) (simp add: Cons inner)
          ultimately show ?thesis using Cons True inner by simp
        qed
      qed
    next
      case False
      show ?thesis
      proof (cases "is_linebreak c")
        case True
        with False have "splitlines_from cur (c # cs @ LF # m @ ss)
                  = cur # splitlines_from [] (cs @ LF # m @ ss)" by simp
        moreover have "\<exists>l \<in> set (splitlines_from [] (cs @ LF # m @ ss)). prefix m l"
          by (rule less) (simp add: Cons)
        ultimately show ?thesis using Cons by simp
      next
        case nb: False
        with False have "splitlines_from cur (c # cs @ LF # m @ ss)
                  = splitlines_from (cur @ [c]) (cs @ LF # m @ ss)" by simp
        moreover have "\<exists>l \<in> set (splitlines_from (cur @ [c]) (cs @ LF # m @ ss)). prefix m l"
          by (rule less) (simp add: Cons)
        ultimately show ?thesis using Cons by simp
      qed
    qed
  qed
qed

lemma line_after_newline:
  assumes "sublist (LF # m) t" and "\<forall>c \<in> set m. \<not> is_linebreak c" and "m \<noteq> []"
  shows "\<exists>l \<in> set (splitlines t). prefix m l"
proof -
  from assms(1) obtain ps ss where "t = ps @ (LF # m) @ ss" by (auto simp: sublist_def)
  then have "t = ps @ LF # m @ ss" by simp
  then show ?thesis
    unfolding splitlines_def using splitlines_from_after_newline [OF assms(2,3)] by simp
qed

lemma line_after_newline_ex:
  assumes "sublist (LF # m) t" and "\<forall>c \<in> set m. \<not> is_linebreak c" and "m \<noteq> []"
    and "\<And>l. prefix m l \<Longrightarrow> P l"
  shows "list_ex P (splitlines t)"
  using line_after_newline [OF assms(1,2,3)] assms(4) unfolding list_ex_iff by auto

lemma unsafe_header_plus:
  assumes "prefix ''+++ /'' l"
  shows "unsafe_header l"
proof -
  have "prefix ''+++ '' ''+++ /''" by simp
  then have "prefix ''+++ '' l" using assms by (rule prefix_order.trans)
  then have h: "header_line l" unfolding header_line_def by (rule disjI1)
  have a: "has_absolute_path l" unfolding has_absolute_path_def using assms by (rule disjI1)
  show ?thesis unfolding unsafe_header_def using h a by (intro conjI disjI1)
qed

lemma unsafe_header_minus:
  assumes "prefix ''--- /'' l"
  shows "unsafe_header l"
proof -
  have "prefix ''--- '' ''--- /''" by simp
  then have "prefix ''--- '' l" using assms by (rule prefix_order.trans)
  then have h: "header_line l" unfolding header_line_def by (intro disjI2 disjI1)
  have a: "has_absolute_path l" unfolding has_absolute_path_def using assms
    by (intro disjI2 disjI1)
  show ?thesis unfolding unsafe_header_def using h a by (intro conjI disjI1)
qed

lemma newline_plus_unsafe:
  assumes "sublist (LF # ''+++ /'') t"
  shows "list_ex unsafe_header (splitlines t)"
proof -
  have nb: "\<forall>c \<in> set ''+++ /''. \<not> is_linebreak c" by (simp add: is_linebreak_def)
  have ne: "''+++ /'' \<noteq> []" by simp
  show ?thesis by (rule line_after_newline_ex [OF assms nb ne unsafe_header_plus])
qed

lemma newline_minus_unsafe:
  assumes "sublist (LF # ''--- /'') t"
  shows "list_ex unsafe_header (splitlines t)"
proof -
  have nb: "\<forall>c \<in> set ''--- /''. \<not> is_linebreak c" by (simp add: is_linebreak_def)
  have ne: "''--- /'' \<noteq> []" by simp
  show ?thesis by (rule line_after_newline_ex [OF assms nb ne unsafe_header_minus])
qed

lemma traversal_header_unsafe:
  assumes "list_ex traversal_header ls"
  shows "list_ex unsafe_header ls"
proof -
  from assms obtain l where l: "l \<in> set ls" and t: "traversal_header l"
    unfolding list_ex_iff by (rule bexE)
  from t have "unsafe_header l" unfolding traversal_header_def unsafe_header_def
    by (intro conjI disjI2) (erule conjunct1, erule conjunct2)
  with l show ?thesis unfolding list_ex_iff by (rule bexI [rotated])
qed

lemma bad_markers_subs:
  "(\<forall>m \<in> set bad_markers. \<not> sublist m t) \<longleftrightarrow>
     \<not> sublist (LF # ''+++ /'') t \<and> \<not> sublist (LF # ''--- /'') t
     \<and> \<not> sublist ''diff --git /'' t"
  by (simp only: bad_markers_def list.set ball_simps simp_thms)

lemma verdict_cases:
  assumes "A1 \<Longrightarrow> U" and "A2 \<Longrightarrow> U" and "T \<Longrightarrow> U"
  shows "(T \<or> A1 \<or> A2 \<or> G \<longrightarrow> \<not> ((\<not> A1 \<and> \<not> A2 \<and> \<not> G) \<and> \<not> T))
     \<and> (\<not> U \<and> \<not> G \<longrightarrow> (\<not> A1 \<and> \<not> A2 \<and> \<not> G) \<and> \<not> T)"
  using assms by blast

text \<open>
  C2, as the code has it. A diff text is rejected when a header line (the first line
  too) holds \<open>../\<close> or \<open>..\\<close>, when \<open>+++ /\<close> or \<open>--- /\<close> comes right after a
  newline, and when \<open>diff --git /\<close> occurs anywhere in the text, in a header line or
  not. A diff text is accepted when none of its lines is a header line with an absolute
  path or a traversal token and \<open>diff --git /\<close> occurs nowhere in it.
\<close>

theorem patch_is_safe_verdict:
  "(list_ex traversal_header (splitlines t) \<or> sublist (LF # ''+++ /'') t
      \<or> sublist (LF # ''--- /'') t \<or> sublist ''diff --git /'' t
      \<longrightarrow> \<not> fst (patch_is_safe t))
   \<and> (\<not> list_ex unsafe_header (splitlines t) \<and> \<not> sublist ''diff --git /'' t
      \<longrightarrow> fst (patch_is_safe t))"
  unfolding patch_is_safe_accepted bad_markers_subs
  by (rule verdict_cases [OF newline_plus_unsafe newline_minus_unsafe traversal_header_unsafe])

theorem patch_is_safe_verdict_witness:
  "list_ex traversal_header (splitlines (''--- a/x'' @ [LF] @ ''+++ b/../x''))
   \<and> \<not> fst (patch_is_safe (''--- a/x'' @ [LF] @ ''+++ b/../x''))
   \<and> \<not> list_ex unsafe_header (splitlines (''--- a/x'' @ [LF] @ ''+++ b/x''))
   \<and> \<not> sublist ''diff --git /'' (''--- a/x'' @ [LF] @ ''+++ b/x'')
   \<and> fst (patch_is_safe (''--- a/x'' @ [LF] @ ''+++ b/x''))"
  using patch_is_safe_verdict [of "''--- a/x'' @ [LF] @ ''+++ b/../x''"]
        patch_is_safe_verdict [of "''--- a/x'' @ [LF] @ ''+++ b/x''"]
  by (simp add: splitlines_def traversal_header_def unsafe_header_def header_line_def
                has_traversal_def has_absolute_path_def
                LF_def CR_def backslash_def is_linebreak_def sublist_code prefix_code)

text \<open>
  C2, as the specification states it, asks for the acceptance of every text without an
  unsafe header line. The text below has no header line at all, only a hunk with an added
  line that quotes \<open>diff --git /x\<close>, and it is rejected: the validator looks for
  \<open>diff --git /\<close> anywhere in the text, not in the header lines only.
\<close>

theorem patch_is_safe_counterexample:
  "\<not> list_ex unsafe_header (splitlines (''@@ -1 +1 @@'' @ [LF] @ ''+see diff --git /x''))
   \<and> \<not> fst (patch_is_safe (''@@ -1 +1 @@'' @ [LF] @ ''+see diff --git /x''))"
  by (simp add: patch_is_safe_def bad_markers_def splitlines_def unsafe_header_def
                header_line_def has_absolute_path_def has_traversal_def
                LF_def CR_def backslash_def is_linebreak_def sublist_code prefix_code)

text \<open>
  The theorem leaves open what happens to a header with an absolute path that is the
  first line of the text, where no newline comes before \<open>+++ /\<close>. Such a text passes the
  validator.
\<close>

lemma patch_is_safe_first_line:
  "list_ex unsafe_header (splitlines ''+++ /etc/passwd'') \<and> fst (patch_is_safe ''+++ /etc/passwd'')"
  by (simp add: patch_is_safe_def bad_markers_def splitlines_def unsafe_header_def
                header_line_def has_absolute_path_def has_traversal_def
                LF_def CR_def backslash_def is_linebreak_def sublist_code prefix_code)

section \<open>Properties of the task runner\<close>

lemma orchestrator_run_log:
  "orchestrator_run e a c t w = (r, w') \<Longrightarrow> proc_log w' = proc_log w @ [(a, c, t)]"
  by (auto simp: orchestrator_run_def subprocess_run_def split: proc_outcome.splits)

lemma orchestrator_run_result:
  "orchestrator_run e a c t w = (r, w') \<Longrightarrow> r = executor_result e (length (proc_log w)) (a, c, t)"
  by (auto simp: orchestrator_run_def subprocess_run_def executor_result_def
      split: proc_outcome.splits)

lemma task_result_first:
  "task_result e ctx w (task # vis) task spec
     = executor_result e (length (proc_log w)) (task_call ctx spec)"
  by (simp add: task_result_def call_index_def List.map_filter_simps)

lemma task_result_later_skipped:
  assumes "t \<noteq> task" and "tasks (config ctx) task = None"
  shows "task_result e ctx w (task # vis) t spec = task_result e ctx w vis t spec"
  using assms by (simp add: task_result_def call_index_def List.map_filter_simps)

lemma task_result_later_run:
  assumes "t \<noteq> task" and "tasks (config ctx) task = Some s" and "proc_log w1 = proc_log w @ [c]"
  shows "task_result e ctx w (task # vis) t spec = task_result e ctx w1 vis t spec"
  using assms by (simp add: task_result_def call_index_def List.map_filter_simps)

lemma run_tasks_loop_visits:
  assumes "run_tasks_loop e ctx order st w = (status, w')" and "distinct order"
  shows "\<exists>vis rest. order = vis @ rest
      \<and> (\<forall>t. t \<notin> set vis \<longrightarrow> status t = st t)
      \<and> (\<forall>t \<in> set vis. tasks (config ctx) t = None \<longrightarrow> status t = Some Skipped)
      \<and> (\<forall>t \<in> set vis. \<forall>spec. tasks (config ctx) t = Some spec \<longrightarrow>
            status t = Some (task_entry spec (task_result e ctx w vis t spec)))
      \<and> proc_log w' = proc_log w @ map (task_call ctx) (List.map_filter (tasks (config ctx)) vis)
      \<and> (\<forall>t \<in> set (butlast vis). \<forall>spec. tasks (config ctx) t = Some spec \<longrightarrow>
            fst (task_result e ctx w vis t spec) = 0)
      \<and> (rest \<noteq> [] \<longrightarrow> vis \<noteq> []
            \<and> (\<exists>spec. tasks (config ctx) (last vis) = Some spec
                  \<and> fst (task_result e ctx w vis (last vis) spec) \<noteq> 0))"
  using assms
proof (induction order arbitrary: st w)
  case Nil
  then show ?case by simp
next
  case (Cons task later)
  have nin: "task \<notin> set later" and dl: "distinct later" using Cons.prems(2) by auto
  show ?case
  proof (cases "tasks (config ctx) task")
    case None
    with Cons.prems(1) have run: "run_tasks_loop e ctx later (st(task \<mapsto> Skipped)) w = (status, w')"
      by simp
    from Cons.IH [OF run dl] obtain vis rest where
      o: "later = vis @ rest"
      and u: "\<forall>t. t \<notin> set vis \<longrightarrow> status t = (st(task \<mapsto> Skipped)) t"
      and v: "\<forall>t \<in> set vis. tasks (config ctx) t = None \<longrightarrow> status t = Some Skipped"
      and x: "\<forall>t \<in> set vis. \<forall>spec. tasks (config ctx) t = Some spec \<longrightarrow>
            status t = Some (task_entry spec (task_result e ctx w vis t spec))"
      and l: "proc_log w' = proc_log w @ map (task_call ctx) (List.map_filter (tasks (config ctx)) vis)"
      and b: "\<forall>t \<in> set (butlast vis). \<forall>spec. tasks (config ctx) t = Some spec \<longrightarrow>
            fst (task_result e ctx w vis t spec) = 0"
      and r: "rest \<noteq> [] \<longrightarrow> vis \<noteq> []
            \<and> (\<exists>spec. tasks (config ctx) (last vis) = Some spec
                  \<and> fst (task_result e ctx w vis (last vis) spec) \<noteq> 0)"
      by blast
    have tv: "task \<notin> set vis" using nin o by simp
    have same: "\<And>t spec. t \<in> set vis \<Longrightarrow>
        task_result e ctx w (task # vis) t spec = task_result e ctx w vis t spec"
      using tv task_result_later_skipped [OF _ None] by metis
    have st: "status task = Some Skipped" using u tv by simp
    have 1: "task # later = (task # vis) @ rest" using o by simp
    have 2: "\<forall>t. t \<notin> set (task # vis) \<longrightarrow> status t = st t" using u by simp
    have 3: "\<forall>t \<in> set (task # vis). tasks (config ctx) t = None \<longrightarrow> status t = Some Skipped"
      using v st by simp
    have 4: "\<forall>t \<in> set (task # vis). \<forall>spec. tasks (config ctx) t = Some spec \<longrightarrow>
            status t = Some (task_entry spec (task_result e ctx w (task # vis) t spec))"
      using x None same by simp
    have 5: "proc_log w' = proc_log w @
        map (task_call ctx) (List.map_filter (tasks (config ctx)) (task # vis))"
      using l None by (simp add: List.map_filter_simps)
    have 6: "\<forall>t \<in> set (butlast (task # vis)). \<forall>spec. tasks (config ctx) t = Some spec \<longrightarrow>
            fst (task_result e ctx w (task # vis) t spec) = 0"
    proof (intro ballI allI impI)
      fix t sp
      assume t: "t \<in> set (butlast (task # vis))" and c: "tasks (config ctx) t = Some sp"
      from c None have "t \<noteq> task" by auto
      with t have tb: "t \<in> set (butlast vis)" by (cases "vis = []") auto
      then have "t \<in> set vis" by (rule in_set_butlastD)
      with b c tb same show "fst (task_result e ctx w (task # vis) t sp) = 0" by simp
    qed
    have 7: "rest \<noteq> [] \<longrightarrow> task # vis \<noteq> []
            \<and> (\<exists>spec. tasks (config ctx) (last (task # vis)) = Some spec
                  \<and> fst (task_result e ctx w (task # vis) (last (task # vis)) spec) \<noteq> 0)"
      using r same by auto
    show ?thesis
      by (rule exI [of _ "task # vis"], rule exI [of _ rest], intro conjI,
          rule 1, rule 2, rule 3, rule 4, rule 5, rule 6, rule 7)
  next
    case (Some spec)
    obtain code out w1 where
      run1: "orchestrator_run e (argv spec) (path_join (repo_dir ctx) (cwd spec)) 900 w = ((code, out), w1)"
      by (metis surj_pair)
    have log1: "proc_log w1 = proc_log w @ [task_call ctx spec]"
      using orchestrator_run_log [OF run1] by (simp add: task_call_def)
    have res1: "(code, out) = executor_result e (length (proc_log w)) (task_call ctx spec)"
      using orchestrator_run_result [OF run1] by (simp add: task_call_def)
    define st1 where "st1 = st(task \<mapsto> TaskOutcome (code = 0) code (join '' '' (argv spec)) (last_chars 4000 out))"
    have entry: "st1 task = Some (task_entry spec (task_result e ctx w (task # vis) task spec))" for vis
      using res1 [symmetric] by (simp add: st1_def task_entry_def task_result_first)
    have code: "fst (task_result e ctx w (task # vis) task spec) = code" for vis
      using res1 [symmetric] by (simp add: task_result_first)
    show ?thesis
    proof (cases "code = 0")
      case True
      with Cons.prems(1) Some run1 have run: "run_tasks_loop e ctx later st1 w1 = (status, w')"
        by (simp add: st1_def Let_def)
      from Cons.IH [OF run dl] obtain vis rest where
        o: "later = vis @ rest"
        and u: "\<forall>t. t \<notin> set vis \<longrightarrow> status t = st1 t"
        and v: "\<forall>t \<in> set vis. tasks (config ctx) t = None \<longrightarrow> status t = Some Skipped"
        and x: "\<forall>t \<in> set vis. \<forall>spec. tasks (config ctx) t = Some spec \<longrightarrow>
              status t = Some (task_entry spec (task_result e ctx w1 vis t spec))"
        and l: "proc_log w' = proc_log w1 @ map (task_call ctx) (List.map_filter (tasks (config ctx)) vis)"
        and b: "\<forall>t \<in> set (butlast vis). \<forall>spec. tasks (config ctx) t = Some spec \<longrightarrow>
              fst (task_result e ctx w1 vis t spec) = 0"
        and r: "rest \<noteq> [] \<longrightarrow> vis \<noteq> []
              \<and> (\<exists>spec. tasks (config ctx) (last vis) = Some spec
                    \<and> fst (task_result e ctx w1 vis (last vis) spec) \<noteq> 0)"
        by blast
      have tv: "task \<notin> set vis" using nin o by simp
      have same: "\<And>t sp. t \<in> set vis \<Longrightarrow>
          task_result e ctx w (task # vis) t sp = task_result e ctx w1 vis t sp"
        using tv task_result_later_run [OF _ Some log1] by metis
      have st: "status task = Some (task_entry spec (task_result e ctx w (task # vis) task spec))"
        using u tv entry by simp
      have 1: "task # later = (task # vis) @ rest" using o by simp
      have 2: "\<forall>t. t \<notin> set (task # vis) \<longrightarrow> status t = st t" using u by (simp add: st1_def)
      have 3: "\<forall>t \<in> set (task # vis). tasks (config ctx) t = None \<longrightarrow> status t = Some Skipped"
        using v Some by simp
      have 4: "\<forall>t \<in> set (task # vis). \<forall>sp. tasks (config ctx) t = Some sp \<longrightarrow>
              status t = Some (task_entry sp (task_result e ctx w (task # vis) t sp))"
        using x st Some same by simp
      have 5: "proc_log w' = proc_log w @
          map (task_call ctx) (List.map_filter (tasks (config ctx)) (task # vis))"
        using l log1 Some by (simp add: List.map_filter_simps)
      have 6: "\<forall>t \<in> set (butlast (task # vis)). \<forall>sp. tasks (config ctx) t = Some sp \<longrightarrow>
              fst (task_result e ctx w (task # vis) t sp) = 0"
      proof (intro ballI allI impI)
        fix t sp
        assume t: "t \<in> set (butlast (task # vis))" and c: "tasks (config ctx) t = Some sp"
        show "fst (task_result e ctx w (task # vis) t sp) = 0"
        proof (cases "t = task")
          case eq: True
          with c Some have "sp = spec" by simp
          with eq code True show ?thesis by simp
        next
          case False
          with t have tb: "t \<in> set (butlast vis)" by (cases "vis = []") auto
          then have "t \<in> set vis" by (rule in_set_butlastD)
          with b c tb same show ?thesis by simp
        qed
      qed
      have 7: "rest \<noteq> [] \<longrightarrow> task # vis \<noteq> []
              \<and> (\<exists>sp. tasks (config ctx) (last (task # vis)) = Some sp
                    \<and> fst (task_result e ctx w (task # vis) (last (task # vis)) sp) \<noteq> 0)"
        using r same by auto
      show ?thesis
        by (rule exI [of _ "task # vis"], rule exI [of _ rest], intro conjI,
            rule 1, rule 2, rule 3, rule 4, rule 5, rule 6, rule 7)
    next
      case False
      with Cons.prems(1) Some run1 have res: "status = st1" "w' = w1"
        by (simp_all add: st1_def Let_def)
      have st: "status task = Some (task_entry spec (task_result e ctx w [task] task spec))"
        using res entry by simp
      have 1: "task # later = [task] @ later" by simp
      have 2: "\<forall>t. t \<notin> set [task] \<longrightarrow> status t = st t" using res by (simp add: st1_def)
      have 3: "\<forall>t \<in> set [task]. tasks (config ctx) t = None \<longrightarrow> status t = Some Skipped"
        using Some by simp
      have 4: "\<forall>t \<in> set [task]. \<forall>sp. tasks (config ctx) t = Some sp \<longrightarrow>
              status t = Some (task_entry sp (task_result e ctx w [task] t sp))"
        using st Some by simp
      have 5: "proc_log w' = proc_log w @
          map (task_call ctx) (List.map_filter (tasks (config ctx)) [task])"
        using log1 res Some by (simp add: List.map_filter_simps)
      have 6: "\<forall>t \<in> set (butlast [task]). \<forall>sp. tasks (config ctx) t = Some sp \<longrightarrow>
              fst (task_result e ctx w [task] t sp) = 0" by simp
      have 7: "later \<noteq> [] \<longrightarrow> [task] \<noteq> []
              \<and> (\<exists>sp. tasks (config ctx) (last [task]) = Some sp
                    \<and> fst (task_result e ctx w [task] (last [task]) sp) \<noteq> 0)"
        using Some code [of "[]"] False by simp
      show ?thesis
        by (rule exI [of _ "[task]"], rule exI [of _ later], intro conjI,
            rule 1, rule 2, rule 3, rule 4, rule 5, rule 6, rule 7)
    qed
  qed
qed

text \<open>
  C4, as the code has it. The runner visits the tasks in the order format, lint,
  typecheck, test, build and stops after the first task whose process returns an exit
  code other than 0: the order splits into the visited tasks and the tasks never reached,
  every command run before the last one returned exit code 0, and when tasks were not
  reached the last command returned another exit code. The returned mapping has an entry
  for each visited task and none for a task that was not reached: a visited task without
  a configured command is recorded as skipped, every other visited task with the exit
  code and output of its own process. No command of a task behind the first failure is
  run.
\<close>

theorem run_tasks_fail_fast:
  assumes "run_tasks e ctx w = (status, w')"
  shows "\<exists>vis rest. visited_prefix e ctx w status w' vis rest"
proof -
  have d: "distinct TASK_ORDER" by (simp add: TASK_ORDER_def)
  from run_tasks_loop_visits [OF assms [unfolded run_tasks_def] d] obtain vis rest where
    o: "TASK_ORDER = vis @ rest"
    and u: "\<forall>t. t \<notin> set vis \<longrightarrow> status t = Map.empty t"
    and v: "\<forall>t \<in> set vis. tasks (config ctx) t = None \<longrightarrow> status t = Some Skipped"
    and x: "\<forall>t \<in> set vis. \<forall>spec. tasks (config ctx) t = Some spec \<longrightarrow>
          status t = Some (task_entry spec (task_result e ctx w vis t spec))"
    and l: "proc_log w' = proc_log w @ map (task_call ctx) (List.map_filter (tasks (config ctx)) vis)"
    and b: "\<forall>t \<in> set (butlast vis). \<forall>spec. tasks (config ctx) t = Some spec \<longrightarrow>
          fst (task_result e ctx w vis t spec) = 0"
    and r: "rest \<noteq> [] \<longrightarrow> vis \<noteq> []
          \<and> (\<exists>spec. tasks (config ctx) (last vis) = Some spec
                \<and> fst (task_result e ctx w vis (last vis) spec) \<noteq> 0)"
    by blast
  have "dom status = set vis"
  proof (rule set_eqI)
    fix t show "t \<in> dom status \<longleftrightarrow> t \<in> set vis"
    proof (cases "t \<in> set vis")
      case True
      then have "status t \<noteq> None" using v x by (cases "tasks (config ctx) t") auto
      with True show ?thesis by (simp add: dom_def)
    next
      case False
      then show ?thesis using u by (simp add: dom_def)
    qed
  qed
  with o v x l b r have "visited_prefix e ctx w status w' vis rest"
    unfolding visited_prefix_def by (intro conjI)
  then show ?thesis by (intro exI)
qed

theorem run_tasks_fail_fast_witness:
  "\<exists>vis rest. visited_prefix env_lint_fails ctx_npm world0
      (fst (run_tasks env_lint_fails ctx_npm world0))
      (snd (run_tasks env_lint_fails ctx_npm world0)) vis rest"
  using run_tasks_fail_fast [of env_lint_fails ctx_npm world0
      "fst (run_tasks env_lint_fails ctx_npm world0)"
      "snd (run_tasks env_lint_fails ctx_npm world0)"]
  by simp

text \<open>
  A run in which the lint command fails: format and lint are visited, typecheck, test and
  build are not reached, and the process of lint returned exit code 1.
\<close>

lemma run_tasks_lint_fails:
  "visited_prefix env_lint_fails ctx_npm world0
      (fst (run_tasks env_lint_fails ctx_npm world0))
      (snd (run_tasks env_lint_fails ctx_npm world0))
      [''format'', ''lint''] [''typecheck'', ''test'', ''build'']
   \<and> fst (task_result env_lint_fails ctx_npm world0 [''format'', ''lint''] ''lint''
            \<lparr>argv = [''npm'', ''run'', ''lint''], cwd = ''.''\<rparr>) = 1"
  by (simp add: visited_prefix_def run_tasks_def TASK_ORDER_def ctx_npm_def env_lint_fails_def
        env_ok_def world0_def orchestrator_run_def subprocess_run_def combined_output_def
        strip_def py_isspace_def last_chars_def path_join_def path_parts_def LF_def
        task_call_def task_result_def task_entry_def call_index_def executor_result_def
        List.map_filter_simps insert_commute)

text \<open>
  C4, as the specification states it, asks for an entry for every task of the order. In
  a run whose lint task fails the mapping has entries for format and lint only: typecheck
  is a task of the order and has no entry.
\<close>

theorem run_tasks_counterexample:
  "''typecheck'' \<in> set TASK_ORDER
   \<and> fst (run_tasks env_lint_fails ctx_npm world0) ''typecheck'' = None
   \<and> fst (run_tasks env_lint_fails ctx_npm world0) ''lint''
       = Some (TaskOutcome False 1 ''npm run lint'' ''SyntaxError line 4'')"
  by (simp add: run_tasks_def TASK_ORDER_def ctx_npm_def env_lint_fails_def env_ok_def
        world0_def orchestrator_run_def subprocess_run_def combined_output_def strip_def
        py_isspace_def last_chars_def path_join_def path_parts_def LF_def)

section \<open>Properties of the command executors\<close>

lemma orchestrator_run_launch_failure:
  "subprocess_result e (length (proc_log w)) (a, c, t) = Raises ex \<Longrightarrow>
     fst (orchestrator_run e a c t w) = (1, ''ERROR running command '' @ str_of_list a @ '': '' @ exn_str ex)"
  by (simp add: orchestrator_run_def subprocess_run_def)

text \<open>
  C3 holds for \<open>_run\<close> of orchestrator.py and fails for \<open>_run\<close> of tools_repo.py, which
  has no \<open>try\<close>. When the executable cannot be started, the executor of the tools
  raises the exception of \<open>subprocess.run\<close> to its caller; the executor of the
  orchestrator returns exit code 1 on the same input.
\<close>

theorem tools_repo_run_raises:
  "fst (tools_repo_run env_missing_tool [''ruff'', ''check'', ''.''] [''repo''] 900 world0)
     = Inl (OSError ''No such file or directory'')
   \<and> fst (fst (orchestrator_run env_missing_tool [''ruff'', ''check'', ''.''] [''repo''] 900 world0)) = 1"
  by (simp add: tools_repo_run_def orchestrator_run_def subprocess_run_def env_missing_tool_def
        env_ok_def world0_def)

section \<open>Properties of branch creation\<close>

lemma any_in_iff: "any_in xs name \<longleftrightarrow> (\<exists>x \<in> set xs. sublist x name)"
  by (induction xs) (auto simp: py_in_sublist)

lemma sublist_single: "sublist [c] name \<longleftrightarrow> c \<in> set name"
  by (induction name) (auto simp: sublist_Cons_right)

lemma invalid_branch_iff:
  "any_in invalid_branch_parts name \<longleftrightarrow>
     sublist ''..'' name \<or> CHR ''~'' \<in> set name \<or> CHR ''^'' \<in> set name
     \<or> CHR '':'' \<in> set name \<or> CHR '' '' \<in> set name \<or> backslash \<in> set name"
  by (simp only: any_in_iff invalid_branch_parts_def list.set bex_simps sublist_single simp_thms)

text \<open>
  C9, as the code has it. A branch name that holds \<open>..\<close>, \<open>~\<close>, \<open>^\<close>, \<open>:\<close>, a space or a
  backslash is rejected by both branch-creation operations with the error text, and the
  world is left as it was: no git command is run.
\<close>

theorem branch_name_rejected:
  assumes "sublist ''..'' name \<or> CHR ''~'' \<in> set name \<or> CHR ''^'' \<in> set name
     \<or> CHR '':'' \<in> set name \<or> CHR '' '' \<in> set name \<or> backslash \<in> set name"
  shows "orchestrator_git_create_branch e dir name w = (''ERROR: invalid branch name'', w)
     \<and> git_create_branch e ctx name w = (Inr ''ERROR: invalid branch name'', ctx, w)"
proof -
  have "any_in invalid_branch_parts name" using assms by (simp only: invalid_branch_iff)
  then show ?thesis by (simp add: orchestrator_git_create_branch_def git_create_branch_def)
qed

theorem branch_name_rejected_witness:
  "CHR '' '' \<in> set ''fix bug''
   \<and> orchestrator_git_create_branch env_ok [''repo''] ''fix bug'' world0
       = (''ERROR: invalid branch name'', world0)
   \<and> git_create_branch env_ok ctx_npm ''fix bug'' world0
       = (Inr ''ERROR: invalid branch name'', ctx_npm, world0)"
  using branch_name_rejected [of "''fix bug''" env_ok "[''repo'']" world0 ctx_npm]
  by simp

text \<open>
  C9, as the specification states it, names every white-space character. A tab is white
  space, and for a name with a tab both operations run \<open>git checkout -b\<close>.
\<close>

theorem branch_name_counterexample:
  "list_ex py_isspace (''fix'' @ [CHR 0x09] @ ''bug'')
   \<and> proc_log (snd (orchestrator_git_create_branch env_ok [''repo'']
                      (''fix'' @ [CHR 0x09] @ ''bug'') world0))
       = [([''git'', ''checkout'', ''-b'', ''fix'' @ [CHR 0x09] @ ''bug''], [''repo''], 60)]
   \<and> proc_log (snd (snd (git_create_branch env_ok ctx_npm (''fix'' @ [CHR 0x09] @ ''bug'') world0)))
       = [([''git'', ''checkout'', ''-b'', ''fix'' @ [CHR 0x09] @ ''bug''], [''repo''], 60)]"
  by (simp add: orchestrator_git_create_branch_def git_create_branch_def invalid_branch_parts_def
        orchestrator_run_def tools_repo_run_def subprocess_run_def env_ok_def world0_def
        ctx_npm_def py_isspace_def backslash_def combined_output_def strip_def LF_def)

section \<open>Properties of Python floats\<close>

lemma round_half_even_lower: "\<lfloor>x\<rfloor> \<le> round_half_even x"
  by (simp add: round_half_even_def Let_def)

lemma round_half_even_upper: "round_half_even x \<le> \<lfloor>x\<rfloor> + 1"
  by (simp add: round_half_even_def Let_def)

lemma round_half_even_of_int: "round_half_even (of_int n) = n"
  by (simp add: round_half_even_def)

lemma round_half_even_mono:
  assumes "x \<le> y"
  shows "round_half_even x \<le> round_half_even y"
proof (cases "\<lfloor>x\<rfloor> = \<lfloor>y\<rfloor>")
  case True
  with assms have "x - of_int \<lfloor>x\<rfloor> \<le> y - of_int \<lfloor>y\<rfloor>" by simp
  with True show ?thesis by (simp add: round_half_even_def Let_def)
next
  case False
  with assms have "\<lfloor>x\<rfloor> + 1 \<le> \<lfloor>y\<rfloor>" using floor_mono [OF assms] by linarith
  with round_half_even_upper [of x] round_half_even_lower [of y] show ?thesis by linarith
qed

lemma bitlen_rat_bounds:
  assumes "0 < p"
  shows "power_int 2 (bitlen p - 1) \<le> (of_int p :: rat) \<and> (of_int p :: rat) < power_int 2 (bitlen p)"
proof -
  from bitlen_bounds [OF assms] have a: "2 ^ nat (bitlen p - 1) \<le> p" and b: "p < 2 ^ nat (bitlen p)"
    by auto
  have pos: "1 \<le> bitlen p"
  proof (rule ccontr)
    assume "\<not> 1 \<le> bitlen p"
    then have "nat (bitlen p) = 0" by simp
    with b assms show False by simp
  qed
  have "(of_int (2 ^ nat (bitlen p - 1)) :: rat) \<le> of_int p" using a by (simp only: of_int_le_iff)
  moreover have "(of_int p :: rat) < of_int (2 ^ nat (bitlen p))" using b by (simp only: of_int_less_iff)
  ultimately show ?thesis using pos by (simp add: power_int_def)
qed

lemma binade_bounds:
  assumes "0 < x"
  shows "power_int 2 (binade x) \<le> x \<and> x < power_int 2 (binade x + 1)"
proof -
  obtain p q where pq: "quotient_of x = (p, q)" by (cases "quotient_of x")
  have q: "0 < q" using quotient_of_denom_pos [OF pq] .
  have x: "x = of_int p / of_int q" using quotient_of_div [OF pq] .
  have p: "0 < p" using assms q x by (simp add: zero_less_divide_iff)
  define P :: rat where "P = of_int p"
  define Q :: rat where "Q = of_int q"
  define k where "k = bitlen p - bitlen q"
  have Q: "0 < Q" using q by (simp add: Q_def)
  have xQ: "x * Q = P" using x Q by (simp add: P_def Q_def)
  note pb = bitlen_rat_bounds [OF p, folded P_def]
  note qb = bitlen_rat_bounds [OF q, folded Q_def]
  have two: "(2::rat) \<noteq> 0" by simp
  have "P < power_int 2 (k + 1) * power_int 2 (bitlen q - 1)"
    using pb by (simp add: k_def power_int_add [symmetric])
  also have "\<dots> \<le> power_int 2 (k + 1) * Q"
    using qb by (intro mult_left_mono) simp_all
  finally have "x * Q < power_int 2 (k + 1) * Q" by (simp only: xQ)
  then have upper: "x < power_int 2 (k + 1)" using Q by simp
  have "power_int 2 (k - 1) * Q \<le> power_int 2 (k - 1) * power_int 2 (bitlen q)"
    using qb by (intro mult_left_mono) simp_all
  also have "\<dots> \<le> P" using pb by (simp add: k_def power_int_add [symmetric])
  finally have "power_int 2 (k - 1) * Q \<le> x * Q" by (simp only: xQ)
  then have lower: "power_int 2 (k - 1) \<le> x" using Q by simp
  have b: "binade x = (if power_int 2 k \<le> x then k else k - 1)"
    by (simp add: binade_def pq k_def Let_def)
  show ?thesis
  proof (cases "power_int 2 k \<le> x")
    case True
    with b upper show ?thesis by simp
  next
    case False
    with b lower show ?thesis by simp
  qed
qed

lemma round_double_bounds:
  assumes "0 < x"
  shows "power_int 2 (binade x) \<le> round_double x \<and> round_double x \<le> power_int 2 (binade x + 1)"
proof -
  define e where "e = binade x"
  define u :: rat where "u = power_int 2 (e - 52)"
  have u: "0 < u" by (simp add: u_def)
  have rd: "round_double x = of_int (round_half_even (x / u)) * u"
    using assms by (simp add: round_double_def u_def e_def Let_def)
  have lo: "power_int 2 e = of_int (2 ^ 52) * u"
    by (simp add: u_def power_int_diff)
  have hi: "power_int 2 (e + 1) = of_int (2 ^ 53) * u"
    by (simp add: u_def power_int_diff power_int_add)
  from binade_bounds [OF assms] have "of_int (2 ^ 52) * u \<le> x" and "x \<le> of_int (2 ^ 53) * u"
    by (simp_all add: e_def [symmetric] lo hi)
  then have "of_int (2 ^ 52) \<le> x / u" and "x / u \<le> of_int (2 ^ 53)"
    using u by (simp_all add: pos_le_divide_eq pos_divide_le_eq)
  then have "round_half_even (of_int (2 ^ 52)) \<le> round_half_even (x / u)"
    and "round_half_even (x / u) \<le> round_half_even (of_int (2 ^ 53))"
    by (simp_all only: round_half_even_mono)
  then have "2 ^ 52 \<le> round_half_even (x / u)" and "round_half_even (x / u) \<le> 2 ^ 53"
    by (simp_all only: round_half_even_of_int)
  then have "(of_int (2 ^ 52) :: rat) \<le> of_int (round_half_even (x / u))"
    and "(of_int (round_half_even (x / u)) :: rat) \<le> of_int (2 ^ 53)"
    by (simp_all only: of_int_le_iff)
  then have "of_int (2 ^ 52) * u \<le> round_double x" and "round_double x \<le> of_int (2 ^ 53) * u"
    unfolding rd using u by (simp_all only: mult_le_cancel_right_pos)
  then show ?thesis by (simp only: lo hi e_def [symmetric])
qed

lemma binade_mono:
  assumes "0 < x" and "x \<le> y"
  shows "binade x \<le> binade y"
proof (rule ccontr)
  assume "\<not> binade x \<le> binade y"
  then have "binade y + 1 \<le> binade x" by simp
  then have "power_int (2::rat) (binade y + 1) \<le> power_int 2 (binade x)"
    by (intro power_int_increasing) simp_all
  moreover have "0 < y" using assms by simp
  ultimately show False using binade_bounds [OF assms(1)] binade_bounds [of y] assms(2) by simp
qed

lemma round_double_nonneg:
  assumes "0 \<le> x"
  shows "0 \<le> round_double x"
proof (cases "x = 0")
  case True
  then show ?thesis by (simp add: round_double_def)
next
  case False
  with assms have x: "0 < x" by simp
  have "(0::rat) < power_int 2 (binade x)" by simp
  with round_double_bounds [OF x] show ?thesis by linarith
qed

lemma round_double_mono:
  assumes "0 \<le> x" and "x \<le> y"
  shows "round_double x \<le> round_double y"
proof (cases "x = 0")
  case True
  have "0 \<le> round_double y" using assms by (intro round_double_nonneg) simp
  with True show ?thesis by (simp add: round_double_def)
next
  case False
  with assms have x: "0 < x" and y: "0 < y" by simp_all
  have le: "binade x \<le> binade y" using x assms(2) by (rule binade_mono)
  show ?thesis
  proof (cases "binade x = binade y")
    case True
    define u :: rat where "u = power_int 2 (binade y - 52)"
    have u: "0 < u" by (simp add: u_def)
    have "x / u \<le> y / u" using assms(2) u by (simp add: divide_right_mono)
    then have "round_half_even (x / u) \<le> round_half_even (y / u)" by (rule round_half_even_mono)
    then have "(of_int (round_half_even (x / u)) :: rat) * u \<le> of_int (round_half_even (y / u)) * u"
      using u by (simp only: mult_le_cancel_right_pos of_int_le_iff)
    then show ?thesis using x y True by (simp add: round_double_def Let_def u_def)
  next
    case False
    with le have "binade x + 1 \<le> binade y" by simp
    then have "power_int (2::rat) (binade x + 1) \<le> power_int 2 (binade y)"
      by (intro power_int_increasing) simp_all
    with round_double_bounds [OF x] round_double_bounds [OF y] show ?thesis by linarith
  qed
qed

lemma round_double_values:
  "round_double 0 = 0 \<and> round_double (1 / 4) = 1 / 4 \<and> round_double 1 = 1
   \<and> round_double (5 / 4) = 5 / 4 \<and> round_double (1 / 2) = 1 / 2"
  by code_simp

lemma round_double_delays:
  "\<forall>d \<in> set [1 / 2, 1, 2, 4, 8, 16, 20]. round_double d = d \<and> round_double (5 / 4 * d) = 5 / 4 * d"
  by code_simp

text \<open>
  The jitter factor \<open>1.0 + random.random() * 0.25\<close> lies between 1 and 1.25, both ends
  included.
\<close>

lemma jitter_bounds:
  assumes "0 \<le> r" and "r < 1"
  shows "1 \<le> float_add 1 (float_mul r (1 / 4)) \<and> float_add 1 (float_mul r (1 / 4)) \<le> 5 / 4"
proof -
  define a where "a = float_mul r (1 / 4)"
  have "round_double 0 \<le> round_double (r * (1 / 4))" using assms by (intro round_double_mono) simp_all
  moreover have "round_double (r * (1 / 4)) \<le> round_double (1 / 4)"
    using assms by (intro round_double_mono) simp_all
  ultimately have a: "0 \<le> a" "a \<le> 1 / 4"
    by (simp_all add: a_def float_mul_def round_double_values)
  have "round_double 1 \<le> round_double (1 + a)" using a by (intro round_double_mono) simp_all
  moreover have "round_double (1 + a) \<le> round_double (5 / 4)"
    using a by (intro round_double_mono) simp_all
  ultimately show ?thesis
    by (simp add: a_def [symmetric] float_add_def round_double_values)
qed

text \<open>The jitter factor for the largest value of \<open>random.random()\<close> is 1.25.\<close>

lemma top_jitter:
  "float_mul (1 / 2) (float_add 1 (float_mul (9007199254740991 / 9007199254740992) (1 / 4))) = 5 / 8"
  by code_simp

section \<open>Properties of the resilient call wrapper\<close>

lemma back_off_sleep_log:
  "sleep_log (back_off e tag label a ma delay w)
     = sleep_log w @ [float_mul (min 20 delay)
                        (float_add 1 (float_mul (random_value e (random_draws w)) (1 / 4)))]"
  by (simp add: back_off_def random_random_def asyncio_sleep_def print_def)

lemma back_off_runner_log: "runner_log (back_off e tag label a ma delay w) = runner_log w"
  by (simp add: back_off_def random_random_def asyncio_sleep_def print_def)

lemma back_off_random_draws:
  "random_draws (back_off e tag label a ma delay w) = Suc (random_draws w)"
  by (simp add: back_off_def random_random_def asyncio_sleep_def print_def)

lemma claimed_retryable_retried: "claimed_retryable ex \<Longrightarrow> retried ex"
  by (induction ex rule: claimed_retryable.induct) (simp_all add: client_status_def)

text \<open>One failed attempt that the wrapper retries.\<close>

lemma backoff_attempts_retry:
  assumes "runner_result e (length (runner_log w)) (ag, pr, mt) = Inl ex" and "retried ex"
  shows "\<exists>tag. backoff_attempts e label ag pr mt ma (a # later) delay w
     = backoff_attempts e label ag pr mt ma later (delay * 2)
         (back_off e tag label a ma delay (w\<lparr>runner_log := runner_log w @ [(ag, pr, mt)]\<rparr>))"
  using assms by (cases ex) (auto simp: Runner_run_def)

text \<open>One failed attempt that the wrapper does not retry.\<close>

lemma backoff_attempts_propagate:
  assumes "runner_result e (length (runner_log w)) (ag, pr, mt) = Inl ex" and "\<not> retried ex"
  shows "backoff_attempts e label ag pr mt ma (a # later) delay w
     = (Inl ex, w\<lparr>runner_log := runner_log w @ [(ag, pr, mt)]\<rparr>)"
  using assms by (cases ex) (auto simp: Runner_run_def)

lemma backoff_attempts_success:
  assumes "runner_result e (length (runner_log w)) (ag, pr, mt) = Inr v"
  shows "backoff_attempts e label ag pr mt ma (a # later) delay w
     = (Inr v, w\<lparr>runner_log := runner_log w @ [(ag, pr, mt)]\<rparr>)"
  using assms by (simp add: Runner_run_def)

lemma map_upt_Suc_shift: "map f [0..<Suc k] = f 0 # map (\<lambda>i. f (Suc i)) [0..<k]"
  by (simp add: upt_conv_Cons map_Suc_upt [symmetric] del: upt_Suc)

lemma backoff_attempts_retries:
  assumes "\<forall>i<k. \<exists>ex. runner_result e (length (runner_log w) + i) (ag, pr, mt) = Inl ex \<and> retried ex"
    and "runner_result e (length (runner_log w) + k) (ag, pr, mt) = Inr v"
    and "k < length atts"
  shows "\<exists>w'. backoff_attempts e label ag pr mt ma atts delay w = (Inr v, w')
     \<and> sleep_log w' = sleep_log w @ map (sleep_time e delay (random_draws w)) [0..<k]
     \<and> length (runner_log w') = length (runner_log w) + k + 1"
  using assms
proof (induction k arbitrary: atts delay w)
  case 0
  then obtain a later where atts: "atts = a # later" by (cases atts) auto
  from 0 have "runner_result e (length (runner_log w)) (ag, pr, mt) = Inr v" by simp
  from backoff_attempts_success [OF this] show ?case by (simp add: atts)
next
  case (Suc k)
  then obtain a later where atts: "atts = a # later" by (cases atts) auto
  from Suc.prems(1) obtain ex where
    ex: "runner_result e (length (runner_log w)) (ag, pr, mt) = Inl ex" "retried ex"
    by force
  from backoff_attempts_retry [OF ex] obtain tag where
    step: "backoff_attempts e label ag pr mt ma (a # later) delay w
      = backoff_attempts e label ag pr mt ma later (delay * 2)
         (back_off e tag label a ma delay (w\<lparr>runner_log := runner_log w @ [(ag, pr, mt)]\<rparr>))"
    by blast
  define w2 where "w2 = back_off e tag label a ma delay (w\<lparr>runner_log := runner_log w @ [(ag, pr, mt)]\<rparr>)"
  have len: "length (runner_log w2) = Suc (length (runner_log w))"
    by (simp add: w2_def back_off_runner_log)
  have draws: "random_draws w2 = Suc (random_draws w)"
    by (simp add: w2_def back_off_random_draws)
  have sl: "sleep_log w2 = sleep_log w @ [sleep_time e delay (random_draws w) 0]"
    by (simp add: w2_def back_off_sleep_log sleep_time_def)
  have h1: "\<forall>i<k. \<exists>ex. runner_result e (length (runner_log w2) + i) (ag, pr, mt) = Inl ex \<and> retried ex"
    using Suc.prems(1) len by (metis Suc_less_eq add_Suc add_Suc_right)
  have h2: "runner_result e (length (runner_log w2) + k) (ag, pr, mt) = Inr v"
    using Suc.prems(2) len by simp
  have h3: "k < length later" using Suc.prems(3) atts by simp
  from Suc.IH [OF h1 h2 h3, of "delay * 2"] obtain w' where
    r: "backoff_attempts e label ag pr mt ma later (delay * 2) w2 = (Inr v, w')"
    and s: "sleep_log w' = sleep_log w2 @ map (sleep_time e (delay * 2) (random_draws w2)) [0..<k]"
    and n: "length (runner_log w') = length (runner_log w2) + k + 1"
    by blast
  have shift: "\<And>i. sleep_time e (delay * 2) (random_draws w2) i = sleep_time e delay (random_draws w) (Suc i)"
    by (simp add: sleep_time_def draws mult.assoc)
  have "sleep_log w' = sleep_log w @ map (sleep_time e delay (random_draws w)) [0..<Suc k]"
    unfolding map_upt_Suc_shift using s sl shift by simp
  moreover have "backoff_attempts e label ag pr mt ma atts delay w = (Inr v, w')"
    using step r by (simp add: atts w2_def)
  moreover have "length (runner_log w') = length (runner_log w) + Suc k + 1"
    using n len by simp
  ultimately show ?case by blast
qed

lemma backoff_attempts_exhausted:
  assumes "\<forall>i<length atts. \<exists>ex. runner_result e (length (runner_log w) + i) (ag, pr, mt) = Inl ex \<and> retried ex"
  shows "\<exists>w'. backoff_attempts e label ag pr mt ma atts delay w = (Inl (exceeded_retries label ma), w')
     \<and> length (sleep_log w') = length (sleep_log w) + length atts
     \<and> length (runner_log w') = length (runner_log w) + length atts"
  using assms
proof (induction atts arbitrary: delay w)
  case Nil
  then show ?case by (simp add: exceeded_retries_def)
next
  case (Cons a later)
  from Cons.prems obtain ex where
    ex: "runner_result e (length (runner_log w)) (ag, pr, mt) = Inl ex" "retried ex"
    by force
  from backoff_attempts_retry [OF ex] obtain tag where
    step: "backoff_attempts e label ag pr mt ma (a # later) delay w
      = backoff_attempts e label ag pr mt ma later (delay * 2)
         (back_off e tag label a ma delay (w\<lparr>runner_log := runner_log w @ [(ag, pr, mt)]\<rparr>))"
    by blast
  define w2 where "w2 = back_off e tag label a ma delay (w\<lparr>runner_log := runner_log w @ [(ag, pr, mt)]\<rparr>)"
  have len: "length (runner_log w2) = Suc (length (runner_log w))"
    by (simp add: w2_def back_off_runner_log)
  have sl: "length (sleep_log w2) = Suc (length (sleep_log w))"
    by (simp add: w2_def back_off_sleep_log)
  have h1: "\<forall>i<length later. \<exists>ex. runner_result e (length (runner_log w2) + i) (ag, pr, mt) = Inl ex \<and> retried ex"
  proof (intro allI impI)
    fix i assume "i < length later"
    then have "Suc i < length (a # later)" by simp
    with Cons.prems have "\<exists>ex. runner_result e (length (runner_log w) + Suc i) (ag, pr, mt) = Inl ex \<and> retried ex"
      by blast
    then show "\<exists>ex. runner_result e (length (runner_log w2) + i) (ag, pr, mt) = Inl ex \<and> retried ex"
      by (simp add: len)
  qed
  from Cons.IH [OF h1, of "delay * 2"] obtain w' where
    r: "backoff_attempts e label ag pr mt ma later (delay * 2) w2 = (Inl (exceeded_retries label ma), w')"
    and s: "length (sleep_log w') = length (sleep_log w2) + length later"
    and n: "length (runner_log w') = length (runner_log w2) + length later"
    by blast
  have "backoff_attempts e label ag pr mt ma (a # later) delay w = (Inl (exceeded_retries label ma), w')"
    using step r by (simp add: w2_def)
  moreover have "length (sleep_log w') = length (sleep_log w) + length (a # later)"
    using s sl by simp
  moreover have "length (runner_log w') = length (runner_log w) + length (a # later)"
    using n len by simp
  ultimately show ?case by blast
qed

lemma base_delay_pos: "0 < base_delay i"
  by (simp add: base_delay_def)

lemma base_delay_values: "base_delay i \<in> set [1 / 2, 1, 2, 4, 8, 16, 20]"
proof (cases "i < 6")
  case True
  then have "i = 0 \<or> i = 1 \<or> i = 2 \<or> i = 3 \<or> i = 4 \<or> i = 5" by arith
  then show ?thesis by (auto simp: base_delay_def)
next
  case False
  then have "(2::rat) ^ 6 \<le> 2 ^ i" by (intro power_increasing) simp_all
  then have "base_delay i = 20" by (simp add: base_delay_def)
  then show ?thesis by simp
qed

lemma sleep_time_bounds:
  assumes "0 \<le> random_value e (r0 + i)" and "random_value e (r0 + i) < 1"
  shows "base_delay i \<le> sleep_time e (1 / 2) r0 i \<and> sleep_time e (1 / 2) r0 i \<le> 5 / 4 * base_delay i"
proof -
  define b where "b = base_delay i"
  define f where "f = float_add 1 (float_mul (random_value e (r0 + i)) (1 / 4))"
  have b: "0 < b" by (simp add: b_def base_delay_pos)
  have fp: "round_double b = b" "round_double (5 / 4 * b) = 5 / 4 * b"
    using round_double_delays base_delay_values [of i] unfolding b_def by blast+
  have st: "sleep_time e (1 / 2) r0 i = round_double (b * f)"
    by (simp add: sleep_time_def b_def f_def base_delay_def float_mul_def)
  have f: "1 \<le> f" "f \<le> 5 / 4" using jitter_bounds [OF assms] by (simp_all add: f_def)
  have "b * 1 \<le> b * f" using b f by (intro mult_left_mono) simp_all
  then have lo: "round_double b \<le> round_double (b * f)" using b by (intro round_double_mono) simp_all
  have "b * f \<le> b * (5 / 4)" using b f by (intro mult_left_mono) simp_all
  then have "b * f \<le> 5 / 4 * b" by (simp add: mult.commute)
  moreover have "0 \<le> b * f" using b f by simp
  ultimately have hi: "round_double (b * f) \<le> round_double (5 / 4 * b)" by (intro round_double_mono)
  from lo hi have "b \<le> round_double (b * f) \<and> round_double (b * f) \<le> 5 / 4 * b"
    by (simp only: fp)
  then show ?thesis by (simp only: st b_def)
qed

text \<open>
  C5, as the code has it. The invocation fails \<open>k\<close> times with a rate-limit failure or
  with a status code of 500 or more, \<open>k\<close> below \<open>max_attempts\<close>, and then succeeds: the
  wrapper returns the value of the successful call and has slept exactly \<open>k\<close> times; the
  \<open>i\<close>-th sleep lies in the interval from the \<open>i\<close>-th base delay 0.5, 1, 2, ..., capped
  at 20, to 1.25 times that delay, both ends included. \<open>random.random()\<close> returns a
  float from 0 up to, and not including, 1.
\<close>

theorem backoff_success_after_retries:
  assumes "\<forall>i<k. \<exists>ex. runner_result e (length (runner_log w) + i) (ag, pr, mt) = Inl ex
             \<and> claimed_retryable ex"
    and "runner_result e (length (runner_log w) + k) (ag, pr, mt) = Inr v"
    and "int k < max_attempts"
    and "\<forall>n. random_double (random_value e n)"
  shows "\<exists>w' sl. run_agent_with_backoff e label ag pr mt max_attempts w = (Inr v, w')
     \<and> sleep_log w' = sleep_log w @ sl \<and> length sl = k
     \<and> (\<forall>i<k. base_delay i \<le> sl ! i \<and> sl ! i \<le> 5 / 4 * base_delay i)"
proof -
  have h1: "\<forall>i<k. \<exists>ex. runner_result e (length (runner_log w) + i) (ag, pr, mt) = Inl ex \<and> retried ex"
    using assms(1) claimed_retryable_retried by blast
  have h3: "k < length [1..max_attempts]" using assms(3) by simp
  from backoff_attempts_retries [OF h1 assms(2) h3] obtain w' where
    r: "backoff_attempts e label ag pr mt max_attempts [1..max_attempts] (1 / 2) w = (Inr v, w')"
    and s: "sleep_log w' = sleep_log w @ map (sleep_time e (1 / 2) (random_draws w)) [0..<k]"
    by blast
  define sl where "sl = map (sleep_time e (1 / 2) (random_draws w)) [0..<k]"
  have bounds: "\<forall>i<k. base_delay i \<le> sl ! i \<and> sl ! i \<le> 5 / 4 * base_delay i"
  proof (intro allI impI)
    fix i assume ik: "i < k"
    note r = assms(4) [rule_format, of "random_draws w + i", unfolded random_double_def]
    have "sl ! i = sleep_time e (1 / 2) (random_draws w) i" using ik by (simp add: sl_def)
    then show "base_delay i \<le> sl ! i \<and> sl ! i \<le> 5 / 4 * base_delay i"
      using sleep_time_bounds [OF conjunct1 [OF r] conjunct1 [OF conjunct2 [OF r]]] by (simp only:)
  qed
  have len: "length sl = k" by (simp add: sl_def)
  have run: "run_agent_with_backoff e label ag pr mt max_attempts w = (Inr v, w')"
    using r by (simp add: run_agent_with_backoff_def)
  have log: "sleep_log w' = sleep_log w @ sl" using s by (simp only: sl_def)
  show ?thesis
    by (rule exI [of _ w'], rule exI [of _ sl], intro conjI, rule run, rule log, rule len, rule bounds)
qed

lemma base_delays: "map base_delay [0..<8] = [1 / 2, 1, 2, 4, 8, 16, 20, 20]"
  by (simp add: base_delay_def upt_rec)

theorem backoff_success_after_retries_witness:
  "\<exists>w' sl. run_agent_with_backoff env_two_rate_limits ''map'' RepoMapper RepoMapPrompt 30
               default_max_attempts world0 = (Inr ''{}'', w')
     \<and> sleep_log w' = sl \<and> length sl = 2
     \<and> (\<forall>i<2. base_delay i \<le> sl ! i \<and> sl ! i \<le> 5 / 4 * base_delay i)"
  using backoff_success_after_retries [of 2 env_two_rate_limits world0 RepoMapper RepoMapPrompt 30
          "''{}''" default_max_attempts "''map''"]
  by (simp add: env_two_rate_limits_def env_ok_def world0_def default_max_attempts_def
        random_double_def)

text \<open>
  C5, as the specification states it, keeps every sleep below 1.25 times the base delay.
  The actor fails once with a rate-limit error and \<open>random.random()\<close> returns
  \<open>1 - 2 ^ -53\<close>, its largest value: the sum \<open>1.0 + random.random() * 0.25\<close> is rounded
  to 1.25, and the wrapper sleeps 0.625, which is 1.25 times the base delay 0.5.
\<close>

theorem backoff_jitter_counterexample:
  "random_double (random_value env_top_jitter 0)
   \<and> fst (run_agent_with_backoff env_top_jitter ''map'' RepoMapper RepoMapPrompt 30
            default_max_attempts world0) = Inr ''{}''
   \<and> sleep_log (snd (run_agent_with_backoff env_top_jitter ''map'' RepoMapper RepoMapPrompt 30
            default_max_attempts world0)) = [5 / 8]
   \<and> \<not> 5 / 8 < 5 / 4 * base_delay 0"
  by (simp add: run_agent_with_backoff_def default_max_attempts_def env_top_jitter_def
        env_ok_def world0_def Runner_run_def back_off_def random_random_def asyncio_sleep_def
        print_def upto_rec1 top_jitter random_double_def base_delay_def)

text \<open>
  C6, as the code has it. A failure that is not retried (an exception that is no API
  error, or an API error with a status code below 500) is raised to the caller by the
  first attempt: one call of the actor, no sleep. A rate-limit error and an API error
  that has no status code below 500, the error without a status code included, are
  retried; after \<open>max_attempts\<close> such failures, 8 by default, the wrapper has slept
  \<open>max_attempts\<close> times and raises the terminal error that names the label and the
  number of attempts.
\<close>

theorem backoff_propagates_or_gives_up:
  "(0 < max_attempts \<and> runner_result e (length (runner_log w)) (ag, pr, mt) = Inl ex \<and> \<not> retried ex
      \<longrightarrow> run_agent_with_backoff e label ag pr mt max_attempts w
            = (Inl ex, w\<lparr>runner_log := runner_log w @ [(ag, pr, mt)]\<rparr>))
   \<and> ((\<forall>i<nat max_attempts. \<exists>ex. runner_result e (length (runner_log w) + i) (ag, pr, mt) = Inl ex
            \<and> retried ex)
      \<longrightarrow> (\<exists>w'. run_agent_with_backoff e label ag pr mt max_attempts w
                  = (Inl (exceeded_retries label max_attempts), w')
              \<and> length (sleep_log w') = length (sleep_log w) + nat max_attempts
              \<and> length (runner_log w') = length (runner_log w) + nat max_attempts))"
proof (intro conjI impI)
  assume a: "0 < max_attempts \<and> runner_result e (length (runner_log w)) (ag, pr, mt) = Inl ex \<and> \<not> retried ex"
  then have "[1..max_attempts] = 1 # [2..max_attempts]" by (simp add: upto_rec1)
  then show "run_agent_with_backoff e label ag pr mt max_attempts w
            = (Inl ex, w\<lparr>runner_log := runner_log w @ [(ag, pr, mt)]\<rparr>)"
    using a backoff_attempts_propagate [of e w ag pr mt ex label max_attempts 1 "[2..max_attempts]" "1 / 2"]
    by (simp add: run_agent_with_backoff_def)
next
  assume "\<forall>i<nat max_attempts. \<exists>ex. runner_result e (length (runner_log w) + i) (ag, pr, mt) = Inl ex
            \<and> retried ex"
  then have "\<forall>i<length [1..max_attempts]. \<exists>ex. runner_result e (length (runner_log w) + i) (ag, pr, mt) = Inl ex
            \<and> retried ex" by simp
  from backoff_attempts_exhausted [OF this, of label max_attempts "1 / 2"]
  show "\<exists>w'. run_agent_with_backoff e label ag pr mt max_attempts w
                  = (Inl (exceeded_retries label max_attempts), w')
              \<and> length (sleep_log w') = length (sleep_log w) + nat max_attempts
              \<and> length (runner_log w') = length (runner_log w) + nat max_attempts"
    by (simp add: run_agent_with_backoff_def)
qed

theorem backoff_propagates_or_gives_up_witness:
  "run_agent_with_backoff env_unauthorized ''plan'' Planner RepoMapPrompt 20 default_max_attempts world0
     = (Inl (APIError (Some 401)), world0\<lparr>runner_log := [(Planner, RepoMapPrompt, 20)]\<rparr>)
   \<and> (\<exists>w'. run_agent_with_backoff env_unavailable ''plan'' Planner RepoMapPrompt 20 default_max_attempts world0
          = (Inl (RuntimeError ''plan: exceeded retries after 8 attempts''), w')
        \<and> length (sleep_log w') = 8 \<and> length (runner_log w') = 8)"
  using backoff_propagates_or_gives_up [of default_max_attempts env_unauthorized world0 Planner
          RepoMapPrompt 20 "APIError (Some 401)" "''plan''"]
        backoff_propagates_or_gives_up [of default_max_attempts env_unavailable world0 Planner
          RepoMapPrompt 20 "APIError (Some 503)" "''plan''"]
  by (simp add: env_unauthorized_def env_unavailable_def env_ok_def world0_def
        default_max_attempts_def client_status_def exceeded_retries_def str_of_int_def)

text \<open>
  C6, as the specification states it, has every failure that is neither a rate-limit
  failure nor a failure with a status code of 500 or more raised by the first attempt.
  An API error without a status code is such a failure, and the wrapper sleeps and calls
  the actor again.
\<close>

theorem backoff_counterexample:
  "\<not> claimed_retryable (APIError None)
   \<and> fst (run_agent_with_backoff env_connection_error ''map'' RepoMapper RepoMapPrompt 30
            default_max_attempts world0) = Inr ''{}''
   \<and> sleep_log (snd (run_agent_with_backoff env_connection_error ''map'' RepoMapper RepoMapPrompt 30
            default_max_attempts world0)) = [1 / 2]
   \<and> length (runner_log (snd (run_agent_with_backoff env_connection_error ''map'' RepoMapper
            RepoMapPrompt 30 default_max_attempts world0))) = 2"
  by (simp add: run_agent_with_backoff_def default_max_attempts_def env_connection_error_def
        env_ok_def world0_def Runner_run_def back_off_def random_random_def asyncio_sleep_def
        print_def client_status_def upto_rec1 float_mul_def float_add_def round_double_values)

section \<open>Properties of the path check\<close>

lemma parents_strict_prefix: "r \<in> set (parents c) \<longleftrightarrow> strict_prefix r c"
proof
  assume "r \<in> set (parents c)"
  then obtain n where n: "n < length c" and r: "r = take n c" by (auto simp: parents_def)
  have "prefix r c" unfolding r by (rule take_is_prefix)
  moreover have "r \<noteq> c" using n r by (metis length_take min.absorb4 nat_neq_iff)
  ultimately show "strict_prefix r c" by (simp add: strict_prefix_def)
next
  assume "strict_prefix r c"
  then obtain z where c: "c = r @ z" and z: "z \<noteq> []" by (auto elim: strict_prefixE')
  have "r = take (length r) c" using c by simp
  moreover have "length r < length c" using c z by simp
  ultimately show "r \<in> set (parents c)" unfolding parents_def by (metis (no_types, lifting) atLeastLessThan_iff imageI image_set le0 set_rev set_upt)
qed

lemma abs_path_inside:
  "abs_path resolve ctx p =
     (if inside_repo (resolve (repo_dir ctx)) (resolve (path_join (repo_dir ctx) p))
      then Inr (resolve (path_join (repo_dir ctx) p))
      else Inl (ValueError (''Path escapes repo: '' @ p)))"
  unfolding abs_path_def Let_def inside_repo_def parents_strict_prefix by (simp only: de_Morgan_disj if_not_P if_P split: if_split) metis

text \<open>
  C7. When the resolved path is the resolved repository root or a descendant of it,
  \<open>abs_path\<close> returns the resolved path. For every other path it raises \<open>ValueError\<close>,
  and the tools that read and write hand the exception on with the file system as it
  was: no file is written and no access is logged.
\<close>

theorem abs_path_confined:
  "(inside_repo (resolve (repo_dir ctx)) (resolve (path_join (repo_dir ctx) p))
      \<longrightarrow> abs_path resolve ctx p = Inr (resolve (path_join (repo_dir ctx) p)))
   \<and> (\<not> inside_repo (resolve (repo_dir ctx)) (resolve (path_join (repo_dir ctx) p))
      \<longrightarrow> abs_path resolve ctx p = Inl (ValueError (''Path escapes repo: '' @ p))
          \<and> read_file resolve ctx p start_line end_line fs
              = (Inl (ValueError (''Path escapes repo: '' @ p)), fs)
          \<and> write_file resolve ctx p content create_dirs fs
              = (Inl (ValueError (''Path escapes repo: '' @ p)), fs))"
proof (intro conjI impI)
  assume "inside_repo (resolve (repo_dir ctx)) (resolve (path_join (repo_dir ctx) p))"
  then show "abs_path resolve ctx p = Inr (resolve (path_join (repo_dir ctx) p))"
    by (simp only: abs_path_inside if_True)
next
  assume "\<not> inside_repo (resolve (repo_dir ctx)) (resolve (path_join (repo_dir ctx) p))"
  then show "abs_path resolve ctx p = Inl (ValueError (''Path escapes repo: '' @ p))"
    by (simp only: abs_path_inside if_False)
next
  assume "\<not> inside_repo (resolve (repo_dir ctx)) (resolve (path_join (repo_dir ctx) p))"
  then have "abs_path resolve ctx p = Inl (ValueError (''Path escapes repo: '' @ p))"
    by (simp only: abs_path_inside if_False)
  then show "read_file resolve ctx p start_line end_line fs
          = (Inl (ValueError (''Path escapes repo: '' @ p)), fs)"
    by (simp add: read_file_def)
next
  assume "\<not> inside_repo (resolve (repo_dir ctx)) (resolve (path_join (repo_dir ctx) p))"
  then have "abs_path resolve ctx p = Inl (ValueError (''Path escapes repo: '' @ p))"
    by (simp only: abs_path_inside if_False)
  then show "write_file resolve ctx p content create_dirs fs
          = (Inl (ValueError (''Path escapes repo: '' @ p)), fs)"
    by (simp add: write_file_def)
qed

theorem abs_path_confined_witness:
  "abs_path resolve_lexical ctx_npm ''src/../README.md'' = Inr [''repo'', ''README.md'']
   \<and> abs_path resolve_lexical ctx_npm ''../etc/passwd'' = Inl (ValueError ''Path escapes repo: ../etc/passwd'')
   \<and> write_file resolve_lexical ctx_npm ''../etc/passwd'' ''x'' True fs_example
       = (Inl (ValueError ''Path escapes repo: ../etc/passwd''), fs_example)"
  using abs_path_confined [of resolve_lexical ctx_npm "''src/../README.md''"]
        abs_path_confined [of resolve_lexical ctx_npm "''../etc/passwd''" 1 200 fs_example "''x''" True]
  by (simp add: inside_repo_def ctx_npm_def resolve_lexical_def path_join_def path_parts_def
        strict_prefix_def prefix_code)

section \<open>Properties of the configuration loader\<close>

lemma load_tasks_step:
  "load_tasks ((k, v) # rest) ts
     = load_tasks rest (if valid_entry k v then ts(k \<mapsto> spec_of v) else ts)"
  by (cases v) (simp_all add: valid_entry_def spec_of_def)

lemma load_tasks_lookup:
  assumes "distinct (map fst raw)"
  shows "load_tasks raw ts k =
     (case map_of raw k of
        None \<Rightarrow> ts k
      | Some v \<Rightarrow> if valid_entry k v then Some (spec_of v) else ts k)"
  using assms
proof (induction raw arbitrary: ts)
  case Nil
  then show ?case by simp
next
  case (Cons kv rest)
  obtain k' v where kv: "kv = (k', v)" by (cases kv)
  have d: "distinct (map fst rest)" and nk: "map_of rest k' = None"
    using Cons.prems kv by (auto simp: map_of_eq_None_iff)
  define ts' where "ts' = (if valid_entry k' v then ts(k' \<mapsto> spec_of v) else ts)"
  have step: "load_tasks (kv # rest) ts k = load_tasks rest ts' k"
    unfolding kv ts'_def by (simp only: load_tasks_step)
  have ih: "load_tasks rest ts' k =
     (case map_of rest k of
        None \<Rightarrow> ts' k
      | Some w \<Rightarrow> if valid_entry k w then Some (spec_of w) else ts' k)"
    by (rule Cons.IH [OF d])
  show ?case
  proof (cases "k = k'")
    case True
    have e: "ts' k = (if valid_entry k v then Some (spec_of v) else ts k)"
      using True by (simp add: ts'_def)
    have m: "map_of (kv # rest) k = Some v" using True by (simp add: kv)
    have n: "map_of rest k = None" using nk True by simp
    show ?thesis unfolding step ih m n e by simp
  next
    case False
    have e: "ts' k = ts k" using False by (simp add: ts'_def)
    have m: "map_of (kv # rest) k = map_of rest k" using False by (simp add: kv)
    show ?thesis unfolding step ih e m ..
  qed
qed

text \<open>
  C10, as the code has it. When the configuration object has no \<open>tasks\<close> member, or
  has one that is itself an object, \<open>load\<close> returns a configuration: every key of its
  task mapping is one of the six task names, every \<open>argv\<close> is the list of strings of the
  entry with that key, an entry with another key or with a value that is not a list of
  strings is left out without an error, and every other entry is kept.
\<close>

theorem load_keeps_valid_tasks:
  assumes "(map_of items ''tasks'' = None \<and> raw = []) \<or> map_of items ''tasks'' = Some (JObject raw)"
    and "distinct (map fst raw)"
  shows "\<exists>cfg. load (JObject items) = Inr cfg
     \<and> dom (tasks cfg) \<subseteq> set TASK_NAMES
     \<and> (\<forall>k spec. tasks cfg k = Some spec \<longrightarrow>
           (\<exists>xs. map_of raw k = Some (JArray xs) \<and> list_all is_str xs \<and> argv spec = map the_str xs))
     \<and> (\<forall>k v. map_of raw k = Some v \<and> \<not> valid_entry k v \<longrightarrow> tasks cfg k = None)
     \<and> (\<forall>k v. map_of raw k = Some v \<and> valid_entry k v \<longrightarrow> tasks cfg k = Some (spec_of v))"
proof -
  define cfg where "cfg = \<lparr>tasks = load_tasks raw Map.empty\<rparr>"
  have l: "load (JObject items) = Inr cfg"
    using assms(1) by (auto simp: load_def cfg_def)
  have t: "\<And>k. tasks cfg k =
     (case map_of raw k of None \<Rightarrow> None
      | Some v \<Rightarrow> if valid_entry k v then Some (spec_of v) else None)"
    by (simp add: cfg_def load_tasks_lookup [OF assms(2)])
  have 1: "dom (tasks cfg) \<subseteq> set TASK_NAMES"
    by (auto simp: t valid_entry_def split: option.splits if_splits)
  have 2: "\<forall>k spec. tasks cfg k = Some spec \<longrightarrow>
           (\<exists>xs. map_of raw k = Some (JArray xs) \<and> list_all is_str xs \<and> argv spec = map the_str xs)"
    by (auto simp: t valid_entry_def spec_of_def split: option.splits if_splits json.splits)
  have 3: "\<forall>k v. map_of raw k = Some v \<and> \<not> valid_entry k v \<longrightarrow> tasks cfg k = None"
    by (simp add: t)
  have 4: "\<forall>k v. map_of raw k = Some v \<and> valid_entry k v \<longrightarrow> tasks cfg k = Some (spec_of v)"
    by (simp add: t)
  show ?thesis
    by (rule exI [of _ cfg], intro conjI, rule l, rule 1, rule 2, rule 3, rule 4)
qed

theorem load_keeps_valid_tasks_witness:
  "\<exists>cfg. load (JObject [(''tasks'', JObject raw_example)]) = Inr cfg
     \<and> dom (tasks cfg) \<subseteq> set TASK_NAMES
     \<and> (\<forall>k spec. tasks cfg k = Some spec \<longrightarrow>
           (\<exists>xs. map_of raw_example k = Some (JArray xs) \<and> list_all is_str xs
                  \<and> argv spec = map the_str xs))
     \<and> (\<forall>k v. map_of raw_example k = Some v \<and> \<not> valid_entry k v \<longrightarrow> tasks cfg k = None)
     \<and> (\<forall>k v. map_of raw_example k = Some v \<and> valid_entry k v \<longrightarrow> tasks cfg k = Some (spec_of v))"
proof -
  have h1: "(map_of [(''tasks'', JObject raw_example)] ''tasks'' = None \<and> raw_example = [])
      \<or> map_of [(''tasks'', JObject raw_example)] ''tasks'' = Some (JObject raw_example)"
    by simp
  have h2: "distinct (map fst raw_example)" by (simp add: raw_example_def)
  show ?thesis by (rule load_keeps_valid_tasks [OF h1 h2])
qed

lemma load_example:
  "load (JObject [(''tasks'', JObject raw_example)])
     = Inr \<lparr>tasks = [''lint'' \<mapsto> \<lparr>argv = [''npm'', ''run'', ''lint''], cwd = ''.''\<rparr>]\<rparr>"
  by (simp add: load_def raw_example_def TASK_NAMES_def)

text \<open>
  C10, as the specification states it, has \<open>load\<close> return a configuration for every
  configuration object. For the object whose \<open>tasks\<close> member is \<open>null\<close> it raises
  \<open>AttributeError\<close>: \<open>None\<close> has no \<open>items\<close>.
\<close>

theorem load_counterexample:
  "load (JObject [(''tasks'', JNull)])
     = Inl (AttributeError ([squote] @ ''NoneType'' @ [squote] @ '' object has no attribute ''
                              @ [squote] @ ''items'' @ [squote]))"
  by (simp add: load_def no_attribute_def)

section \<open>Properties of the pipeline controller\<close>

lemma implement_loop_agents:
  "implement_loop e ctx goal plan_json mi its status w = (r, w') \<Longrightarrow>
     \<exists>n. map fst (runner_log w') = map fst (runner_log w) @ replicate n Coder"
proof (induction its arbitrary: status w)
  case Nil
  then have "w' = w" by simp
  then have "map fst (runner_log w') = map fst (runner_log w) @ replicate 0 Coder" by simp
  then show ?case by (rule exI)
next
  case (Cons i later)
  obtain gs w1 where g: "orchestrator_git_status e (repo_dir ctx) w = (gs, w1)" by (cases "orchestrator_git_status e (repo_dir ctx) w")
  have l1: "runner_log w1 = runner_log w"
    using g by (auto simp: orchestrator_git_status_def orchestrator_run_def subprocess_run_def
        split: prod.splits proc_outcome.splits if_splits)
  obtain o2 w2 where c: "Runner_run e Coder (ImplementPrompt i mi goal plan_json gs []) 60 w1 = (o2, w2)"
    by (cases "Runner_run e Coder (ImplementPrompt i mi goal plan_json gs []) 60 w1")
  have l2: "map fst (runner_log w2) = map fst (runner_log w) @ [Coder]"
    using c l1 by (auto simp: Runner_run_def)
  show ?case
  proof (cases o2)
    case (Inl ex)
    with Cons.prems g c have "w' = w2" by simp
    with l2 have "map fst (runner_log w') = map fst (runner_log w) @ replicate 1 Coder" by simp
    then show ?thesis by (rule exI)
  next
    case (Inr out)
    obtain st3 w3 where t: "run_tasks e ctx w2 = (st3, w3)" by (cases "run_tasks e ctx w2")
    have l3: "runner_log w3 = runner_log w2"
    proof -
      have "\<And>order st v. run_tasks_loop e ctx order st v = (st3, w3) \<Longrightarrow> runner_log w3 = runner_log v"
      proof -
        fix order st v
        show "run_tasks_loop e ctx order st v = (st3, w3) \<Longrightarrow> runner_log w3 = runner_log v"
          by (induction order arbitrary: st v)
             (auto simp: orchestrator_run_def subprocess_run_def Let_def
                   split: option.splits prod.splits proc_outcome.splits if_splits)
      qed
      then show ?thesis using t by (simp add: run_tasks_def)
    qed
    from Cons.prems g c Inr t have "implement_loop e ctx goal plan_json mi later st3 w3 = (r, w')"
      by simp
    from Cons.IH [OF this] obtain n where
      "map fst (runner_log w') = map fst (runner_log w3) @ replicate n Coder" by blast
    with l3 l2 have "map fst (runner_log w') = map fst (runner_log w) @ replicate (Suc n) Coder"
      by (simp add: replicate_app_Cons_same)
    then show ?thesis by (rule exI)
  qed
qed

lemma create_branch_runner_log:
  "runner_log (snd (orchestrator_git_create_branch e dir name w)) = runner_log w"
  by (auto simp: orchestrator_git_create_branch_def orchestrator_run_def subprocess_run_def
      split: prod.splits proc_outcome.splits if_splits)

text \<open>
  In every run the actors called are the mapper, the planner and the coder, in this
  order: the debugger, the reviewer and the judge are never called.
\<close>

lemma run_orchestra_agents:
  "\<exists>pre n. map fst (runner_log (snd (run_orchestra e dir goal cfg sid mi cb cm w)))
             = map fst (runner_log w) @ pre @ replicate n Coder
     \<and> set pre \<subseteq> {RepoMapper, Planner}"
proof -
  define ctx where "ctx = \<lparr>repo_dir = dir, config = cfg, session_id = sid, state = Map.empty\<rparr>"
  define start where "start = (if cb
             then (let branch = branch_name_from_goal e goal;
                       (msg, w') = orchestrator_git_create_branch e dir branch w
                   in (ctx\<lparr>state := (state ctx)(''branch'' \<mapsto> StrValue branch)\<rparr>, w'))
             else (ctx, w))"
  obtain ctx1 w1 where s: "start = (ctx1, w1)" by (cases start)
  have l1: "runner_log w1 = runner_log w"
    using s create_branch_runner_log [of e dir "branch_name_from_goal e goal" w]
    by (auto simp: start_def Let_def split: if_splits prod.splits)
  have ro: "run_orchestra e dir goal cfg sid mi cb cm w =
     (case Runner_run e RepoMapper RepoMapPrompt 30 w1 of
           (Inl ex, w2) \<Rightarrow> (Inl ex, w2)
         | (Inr repo_map_json, w2) \<Rightarrow>
             (case Runner_run e Planner (PlanPrompt goal repo_map_json) 20 w2 of
                (Inl ex, w3) \<Rightarrow> (Inl ex, w3)
              | (Inr plan_json, w3) \<Rightarrow>
                  (case implement_loop e ctx1 goal plan_json mi [1..mi] Map.empty w3 of
                     (Inl ex, w4) \<Rightarrow> (Inl ex, w4)
                   | (Inr status, w4) \<Rightarrow> (Inr None, w4))))"
    using s unfolding run_orchestra_def start_def ctx_def Let_def by simp
  obtain o2 w2 where m: "Runner_run e RepoMapper RepoMapPrompt 30 w1 = (o2, w2)"
    by (cases "Runner_run e RepoMapper RepoMapPrompt 30 w1")
  have l2: "map fst (runner_log w2) = map fst (runner_log w) @ [RepoMapper]"
    using m l1 by (auto simp: Runner_run_def)
  show ?thesis
  proof (cases o2)
    case (Inl ex)
    then have "snd (run_orchestra e dir goal cfg sid mi cb cm w) = w2" using ro m by simp
    then have "map fst (runner_log (snd (run_orchestra e dir goal cfg sid mi cb cm w)))
             = map fst (runner_log w) @ [RepoMapper] @ replicate 0 Coder
        \<and> set [RepoMapper] \<subseteq> {RepoMapper, Planner}" using l2 by simp
    then show ?thesis by blast
  next
    case (Inr rm)
    obtain o3 w3 where p: "Runner_run e Planner (PlanPrompt goal rm) 20 w2 = (o3, w3)"
      by (cases "Runner_run e Planner (PlanPrompt goal rm) 20 w2")
    have l3: "map fst (runner_log w3) = map fst (runner_log w) @ [RepoMapper, Planner]"
      using p l2 by (auto simp: Runner_run_def)
    show ?thesis
    proof (cases o3)
      case (Inl ex)
      then have "snd (run_orchestra e dir goal cfg sid mi cb cm w) = w3" using ro m Inr p by simp
      then have "map fst (runner_log (snd (run_orchestra e dir goal cfg sid mi cb cm w)))
             = map fst (runner_log w) @ [RepoMapper, Planner] @ replicate 0 Coder
        \<and> set [RepoMapper, Planner] \<subseteq> {RepoMapper, Planner}" using l3 by simp
      then show ?thesis by blast
    next
      case pl: (Inr plan_json)
      obtain o4 w4 where i: "implement_loop e ctx1 goal plan_json mi [1..mi] Map.empty w3 = (o4, w4)"
        by (cases "implement_loop e ctx1 goal plan_json mi [1..mi] Map.empty w3")
      from implement_loop_agents [OF i] obtain n where
        l4: "map fst (runner_log w4) = map fst (runner_log w3) @ replicate n Coder" by blast
      have "snd (run_orchestra e dir goal cfg sid mi cb cm w) = w4"
        using ro m Inr p pl i by (cases o4) simp_all
      then have "map fst (runner_log (snd (run_orchestra e dir goal cfg sid mi cb cm w)))
             = map fst (runner_log w) @ [RepoMapper, Planner] @ replicate n Coder
        \<and> set [RepoMapper, Planner] \<subseteq> {RepoMapper, Planner}" using l3 l4 by simp
      then show ?thesis by blast
    qed
  qed
qed

text \<open>
  No run of \<open>run_orchestra\<close> returns a result record: when no actor call raises, the
  value is \<open>None\<close>.
\<close>

lemma run_orchestra_no_result:
  "fst (run_orchestra e dir goal cfg sid mi cb cm w) \<noteq> Inr (Some res)"
  by (auto simp: run_orchestra_def Let_def split: prod.splits sum.splits if_splits)

text \<open>
  C1 fails on the code. The first call of the mapping actor fails with a rate-limit
  error (a second call would fail too, a third would answer): \<open>run_orchestra\<close> raises the
  error after this one call of \<open>Runner.run\<close>, without a sleep and without a second
  attempt, while the wrapper, called for the same actor, sleeps twice and returns the
  answer.
\<close>

theorem run_orchestra_does_not_retry:
  "run_orchestra env_two_rate_limits [''repo''] ''add a button'' (config ctx_npm) ''relialimo_dev''
       4 False False world0
     = (Inl RateLimitError, world0\<lparr>runner_log := [(RepoMapper, RepoMapPrompt, 30)]\<rparr>)
   \<and> fst (run_agent_with_backoff env_two_rate_limits ''map'' RepoMapper RepoMapPrompt 30
            default_max_attempts world0) = Inr ''{}''"
  by (simp add: run_orchestra_def run_agent_with_backoff_def default_max_attempts_def
        env_two_rate_limits_def env_ok_def world0_def Runner_run_def back_off_def
        random_random_def asyncio_sleep_def print_def upto_rec1)

text \<open>
  C8 fails on the code. With \<open>max_iterations = 2\<close> and a test task that fails in both
  iterations no exception is raised, but the run ends behind the loop: the value is
  \<open>None\<close>, not a result record, and the actors called are the mapper, the planner and
  twice the coder; the reviewer and the judge are never called.
\<close>

theorem run_orchestra_stops_after_loop:
  "fst (run_orchestra env_test_fails [''repo''] ''add a button'' (config ctx_npm) ''relialimo_dev''
         2 False False world0) = Inr None
   \<and> map fst (runner_log (snd (run_orchestra env_test_fails [''repo''] ''add a button''
         (config ctx_npm) ''relialimo_dev'' 2 False False world0)))
       = [RepoMapper, Planner, Coder, Coder]"
  by (simp add: run_orchestra_def run_tasks_def TASK_ORDER_def orchestrator_git_status_def
        orchestrator_run_def subprocess_run_def Runner_run_def env_test_fails_def env_ok_def
        world0_def ctx_npm_def combined_output_def strip_def py_isspace_def last_chars_def
        path_join_def path_parts_def LF_def upto_rec1)

end
